theory Spec2Isabelle
  imports Main "HOL-Library.Sublist"
begin

section \<open>The system report generator of protoplaster\<close>

text \<open>
  A shallow embedding of \<^verbatim>\<open>protoplaster_system_report.py\<close>. Every function of the
  script that touches the outside (subprocesses, the console, files of the package
  directory, the archive) takes the world and returns it updated; \<^verbatim>\<open>sys.exit\<close> and
  uncaught exceptions are values of the type \<open>error\<close>.
\<close>

subsection \<open>Configuration as loaded from YAML\<close>

text \<open>
  A scalar of the configuration is a string or YAML's null. A key of a mapping is absent
  (\<open>None\<close>) or present with a value (\<open>Some v\<close>); only the keys the script reads are kept.
  The types exclude configurations in which a mapping, a sequence or a string stands
  where the script expects another shape.
\<close>

datatype scalar = Null | Str string

datatype yaml_summary = YamlSummary
  (y_title: "scalar option")
  (y_summary_run: "scalar option")

datatype yaml_command = YamlCommand
  (y_run: "scalar option")
  (y_output: "scalar option")
  (y_superuser: "scalar option")
  (y_summary: "yaml_summary list option")
  (y_on_fail: "yaml_command option")

text \<open>Formatting of a scalar inside an f-string, and Python's truth value of it.\<close>

fun fmt :: "scalar \<Rightarrow> string" where
  "fmt Null = ''None''"
| "fmt (Str s) = s"

fun truthy :: "scalar \<Rightarrow> bool" where
  "truthy Null = False"
| "truthy (Str s) = (s \<noteq> [])"

subsection \<open>The classes of the script\<close>

datatype SummaryConfig = SummaryConfig
  (summary_title: scalar)
  (summary_script: scalar)

datatype CommandConfig = CommandConfig
  (name: string)
  (script: scalar)
  (summary_configs: "SummaryConfig list")
  (output_file: scalar)
  (on_fail: "CommandConfig option")

datatype SubReportSummary = SubReportSummary
  (title: scalar)
  (content: string)

datatype SubReportResult = SubReportResult
  (result_name: string)
  (raw_output: string)
  (result_output_file: scalar)
  (summaries: "SubReportSummary list")

subsection \<open>The world\<close>

text \<open>
  A directory of the package is a list of named entries in the order in which the
  operating system lists them. Paths are lists of names below the directory of the
  script (\<^verbatim>\<open>os.path.dirname(__file__)\<close>).
\<close>

datatype fsnode = File string | Dir "(string \<times> fsnode) list"

type_synonym path = "string list"

text \<open>
  What a subprocess does: it exits with a status and the text it wrote to standard output
  and standard error, or it cannot be run or decoded at all.
\<close>

datatype outcome = Exited nat string | Broken

datatype error =
    SystemExit nat
  | FileNotFoundError path
  | IsADirectoryError path
  | ConfigUnreadable string
  | TemplateError
  | ArchiveUnwritable string
  | KeyError string
  | Execv

type_synonym entries = "(string \<times> string) list"

text \<open>
  \<open>proc w n cmd env inp\<close> is the outcome of the subprocess that the script starts after
  \<open>n\<close> others, with command line \<open>cmd\<close>, the variables \<open>env\<close> added to the environment and
  \<open>inp\<close> on standard input. \<open>executed\<close> is the list of command lines started so far,
  \<open>console\<close> the texts printed so far. \<^verbatim>\<open>id -u\<close> is taken to succeed and to print \<open>uid\<close>; it
  is not counted among the subprocesses. \<open>polls w n\<close> is the number of half-second waits
  that time out while the command started after \<open>n\<close> subprocesses runs.
\<close>

record world =
  uid :: nat
  proc :: "nat \<Rightarrow> string \<Rightarrow> (string \<times> string) list \<Rightarrow> string option \<Rightarrow> outcome"
  executed :: "string list"
  console :: "string list"
  polls :: "nat \<Rightarrow> nat"
  pkg_dir :: string
  pkg :: fsnode
  yaml_files :: "string \<Rightarrow> (string \<times> yaml_command) list option"
  render :: "string \<Rightarrow> SubReportResult list \<Rightarrow> string option"
  writable :: "string \<Rightarrow> bool"
  written :: "(string \<times> entries) list"

text \<open>\<^verbatim>\<open>print(s)\<close> and \<^verbatim>\<open>print(s, end="")\<close>.\<close>

definition print :: "string \<Rightarrow> world \<Rightarrow> world" where
  "print s w = w\<lparr>console := console w @ [s @ [CHR 0x0A]]\<rparr>"

definition print_no_end :: "string \<Rightarrow> world \<Rightarrow> world" where
  "print_no_end s w = w\<lparr>console := console w @ [s]\<rparr>"

text \<open>
  \<^verbatim>\<open>subprocess.check_output(cmd, shell=True, text=True, stderr=STDOUT, env=.., input=..)\<close>:
  the output when the status is 0, an exception (\<open>None\<close>) otherwise. The output of a
  process that failed stays in the exception.
\<close>

fun captured :: "outcome \<Rightarrow> string option" where
  "captured (Exited st out) = (if st = 0 then Some out else None)"
| "captured Broken = None"

definition check_output ::
  "world \<Rightarrow> string \<Rightarrow> (string \<times> string) list \<Rightarrow> string option \<Rightarrow> string option \<times> world" where
  "check_output w cmd env inp =
     (captured (proc w (length (executed w)) cmd env inp),
      w\<lparr>executed := executed w @ [cmd]\<rparr>)"

definition get_cmd_output :: "world \<Rightarrow> string \<Rightarrow> string option \<times> world" where
  "get_cmd_output w cmd = check_output w cmd [] None"

definition is_root :: "world \<Rightarrow> bool" where
  "is_root w = (uid w = 0)"

definition sh_c :: "scalar \<Rightarrow> string" where
  "sh_c s = ''sh -c '' @ [CHR 0x27] @ fmt s @ [CHR 0x27]"

subsection \<open>Loading the configuration\<close>

fun SummaryConfig_init :: "world \<Rightarrow> yaml_summary \<Rightarrow> (error + SummaryConfig) \<times> world" where
  "SummaryConfig_init w (YamlSummary (Some t) (Some r)) = (Inr (SummaryConfig t r), w)"
| "SummaryConfig_init w (YamlSummary t r) =
     (Inl (SystemExit 1), print ''Error: summary config is incomplete'' w)"

text \<open>The list comprehension over \<^verbatim>\<open>config.get("summary", [])\<close>.\<close>

fun summary_configs_init ::
  "world \<Rightarrow> yaml_summary list \<Rightarrow> (error + SummaryConfig list) \<times> world" where
  "summary_configs_init w [] = (Inr [], w)"
| "summary_configs_init w (c # cs) =
     (case SummaryConfig_init w c of
        (Inl e, w1) \<Rightarrow> (Inl e, w1)
      | (Inr s, w1) \<Rightarrow>
          (case summary_configs_init w1 cs of
             (Inl e, w2) \<Rightarrow> (Inl e, w2)
           | (Inr ss, w2) \<Rightarrow> (Inr (s # ss), w2)))"

definition superuser_correct :: "yaml_command \<Rightarrow> bool" where
  "superuser_correct config =
     (y_superuser config = None \<or> y_superuser config = Some (Str ''required'')
      \<or> y_superuser config = Some (Str ''preferred''))"

definition required_fields_present :: "yaml_command \<Rightarrow> bool" where
  "required_fields_present config = (y_run config \<noteq> None \<and> y_output config \<noteq> None)"

definition insufficient :: "string \<Rightarrow> scalar \<Rightarrow> string \<Rightarrow> string" where
  "insufficient kind s rest =
     kind @ '': You have insufficient permissions to run '' @ fmt s @ ''. '' @ rest"

text \<open>
  The privilege check of \<^verbatim>\<open>CommandConfig.__init__\<close>: \<^verbatim>\<open>is_root()\<close> runs only when the key
  \<^verbatim>\<open>superuser\<close> is present.
\<close>

definition check_superuser :: "world \<Rightarrow> yaml_command \<Rightarrow> scalar \<Rightarrow> error option \<times> world" where
  "check_superuser w config s =
     (case y_superuser config of
        None \<Rightarrow> (None, w)
      | Some su \<Rightarrow>
          (if is_root w then (None, w)
           else if su = Str ''required''
           then (Some (SystemExit 1),
                 print (insufficient ''Error'' s ''No system report will be generated.'') w)
           else (None,
                 print (insufficient ''Warning'' s
                   ''Output from this command will be skipped in the system report.'') w)))"

text \<open>
  \<^verbatim>\<open>CommandConfig.__init__\<close>, for the pair of a name and a command object. \<^verbatim>\<open>config["run"]\<close>
  raises for a missing key, which the check of the required fields has excluded.
\<close>

fun CommandConfig_init ::
  "world \<Rightarrow> string \<times> yaml_command \<Rightarrow> (error + CommandConfig) \<times> world" where
  "CommandConfig_init w (nm, YamlCommand run out su summ onf) =
     (let config = YamlCommand run out su summ onf in
      if \<not> required_fields_present config \<or> \<not> superuser_correct config
      then (Inl (SystemExit 1), print (''Error: '' @ nm @ '' config is invalid'') w)
      else
        (case run of
           None \<Rightarrow> (Inl (KeyError ''run''), w)
         | Some s \<Rightarrow>
        (case check_superuser w config s of
           (Some e, w1) \<Rightarrow> (Inl e, w1)
         | (None, w1) \<Rightarrow>
             (case summary_configs_init w1 (case summ of None \<Rightarrow> [] | Some cs \<Rightarrow> cs) of
                (Inl e, w2) \<Rightarrow> (Inl e, w2)
              | (Inr scs, w2) \<Rightarrow>
                  (let output = (case out of None \<Rightarrow> Null | Some f \<Rightarrow> f) in
                   case onf of
                     None \<Rightarrow> (Inr (CommandConfig nm s scs output None), w2)
                   | Some f \<Rightarrow>
                       (case CommandConfig_init w2 (nm, f) of
                          (Inl e, w3) \<Rightarrow> (Inl e, w3)
                        | (Inr c, w3) \<Rightarrow> (Inr (CommandConfig nm s scs output (Some c)), w3)))))))"

definition read_config :: "world \<Rightarrow> string \<Rightarrow> error + (string \<times> yaml_command) list" where
  "read_config w filename =
     (case yaml_files w filename of
        None \<Rightarrow> Inl (ConfigUnreadable filename)
      | Some m \<Rightarrow> Inr m)"

fun command_configs_init ::
  "world \<Rightarrow> (string \<times> yaml_command) list \<Rightarrow> (error + CommandConfig list) \<times> world" where
  "command_configs_init w [] = (Inr [], w)"
| "command_configs_init w (config # rest) =
     (case CommandConfig_init w config of
        (Inl e, w1) \<Rightarrow> (Inl e, w1)
      | (Inr c, w1) \<Rightarrow>
          (case command_configs_init w1 rest of
             (Inl e, w2) \<Rightarrow> (Inl e, w2)
           | (Inr cs, w2) \<Rightarrow> (Inr (c # cs), w2)))"

definition read_commands :: "world \<Rightarrow> string \<Rightarrow> (error + CommandConfig list) \<times> world" where
  "read_commands w filename =
     (case read_config w filename of
        Inl e \<Rightarrow> (Inl e, w)
      | Inr items \<Rightarrow> command_configs_init w items)"

subsection \<open>Running one command\<close>

definition sentinel :: string where
  "sentinel = ''this summary is empty''"

definition summary_env :: "world \<Rightarrow> (string \<times> string) list" where
  "summary_env w = [(''PROTOPLASTER_SCRIPTS'', pkg_dir w @ ''/scripts'')]"

text \<open>
  The loop over \<^verbatim>\<open>config.summary_configs\<close> in \<^verbatim>\<open>run_command\<close>: each summary script reads
  the output of the command, and any exception becomes the sentinel.
\<close>

fun run_summaries ::
  "world \<Rightarrow> string \<Rightarrow> SummaryConfig list \<Rightarrow> SubReportSummary list \<times> world" where
  "run_summaries w out [] = ([], w)"
| "run_summaries w out (summary_config # rest) =
     (case check_output w (sh_c (summary_script summary_config)) (summary_env w) (Some out) of
        (r, w1) \<Rightarrow>
          (case run_summaries w1 out rest of
             (ss, w2) \<Rightarrow>
               (SubReportSummary (summary_title summary_config)
                  (case r of Some summary_content \<Rightarrow> summary_content | None \<Rightarrow> sentinel) # ss,
                w2)))"

fun run_command :: "world \<Rightarrow> CommandConfig \<Rightarrow> SubReportResult option \<times> world" where
  "run_command w (CommandConfig nm s scs outf onf) =
     (case get_cmd_output w (sh_c s) of
        (Some out, w1) \<Rightarrow>
          (case run_summaries w1 out scs of
             (ss, w2) \<Rightarrow> (Some (SubReportResult nm out outf ss), w2))
      | (None, w1) \<Rightarrow>
          (case onf of
             Some fallback \<Rightarrow> run_command w1 fallback
           | None \<Rightarrow> (None, w1)))"

subsection \<open>Files of the package directory\<close>

fun lookup :: "fsnode \<Rightarrow> path \<Rightarrow> fsnode option" where
  "lookup n [] = Some n"
| "lookup (File c) (p # ps) = None"
| "lookup (Dir es) (p # ps) =
     (case map_of es p of None \<Rightarrow> None | Some n \<Rightarrow> lookup n ps)"

text \<open>\<^verbatim>\<open>open(path).read()\<close> for a path below the package directory \<open>fs\<close>.\<close>

definition read_file :: "fsnode \<Rightarrow> path \<Rightarrow> error + string" where
  "read_file fs p =
     (case lookup fs p of
        None \<Rightarrow> Inl (FileNotFoundError p)
      | Some (Dir es) \<Rightarrow> Inl (IsADirectoryError p)
      | Some (File c) \<Rightarrow> Inr c)"

fun is_dir :: "fsnode \<Rightarrow> bool" where
  "is_dir (Dir es) = True"
| "is_dir (File c) = False"

definition dirnames :: "(string \<times> fsnode) list \<Rightarrow> string list" where
  "dirnames es = map fst (filter (\<lambda>e. is_dir (snd e)) es)"

definition filenames :: "(string \<times> fsnode) list \<Rightarrow> string list" where
  "filenames es = map fst (filter (\<lambda>e. \<not> is_dir (snd e)) es)"

text \<open>
  \<^verbatim>\<open>os.walk(t)\<close>, top down: the triple of \<open>t\<close>, then the walks of its subdirectories
  in listing order. A \<open>t\<close> that is no directory yields nothing.
\<close>

fun walk_node :: "path \<Rightarrow> fsnode \<Rightarrow> (path \<times> string list \<times> string list) list" where
  "walk_node t (File c) = []"
| "walk_node t (Dir es) =
     (t, dirnames es, filenames es)
     # concat (map (\<lambda>e. walk_node (t @ [fst e]) (snd e)) (filter (\<lambda>e. is_dir (snd e)) es))"

definition os_walk :: "fsnode \<Rightarrow> path \<Rightarrow> (path \<times> string list \<times> string list) list" where
  "os_walk fs t = (case lookup fs t of None \<Rightarrow> [] | Some n \<Rightarrow> walk_node t n)"

text \<open>A \<^verbatim>\<open>for\<close> loop whose body may raise: the first exception ends the loop.\<close>

fun for_each :: "'a list \<Rightarrow> 's \<Rightarrow> ('a \<Rightarrow> 's \<Rightarrow> error + 's) \<Rightarrow> error + 's" where
  "for_each [] s body = Inr s"
| "for_each (x # xs) s body =
     (case body x s of Inl e \<Rightarrow> Inl e | Inr s1 \<Rightarrow> for_each xs s1 body)"

lemma for_each_cong [fundef_cong]:
  "xs = ys \<Longrightarrow> s = t \<Longrightarrow> (\<And>x u. x \<in> set ys \<Longrightarrow> f x u = g x u)
   \<Longrightarrow> for_each xs s f = for_each ys t g"
proof (induction ys arbitrary: xs s t)
  case Nil
  then show ?case by simp
next
  case (Cons y ys)
  then show ?case by (cases "g y t") auto
qed

text \<open>
  The local function \<^verbatim>\<open>read_files_from_dir(dir, dest)\<close> of \<^verbatim>\<open>generate_system_report\<close>. Each
  file of each triple of the walk is opened at \<^verbatim>\<open>os.path.join(dir, file)\<close>, and the function
  calls itself on every directory of every triple.
\<close>

function read_files_from_dir :: "fsnode \<Rightarrow> path \<Rightarrow> entries \<Rightarrow> error + entries" where
  "read_files_from_dir fs dir dest =
     for_each (os_walk fs dir) dest (\<lambda>(root, dirs, files) dest1.
       case for_each files dest1 (\<lambda>file dest2.
              case read_file fs (dir @ [file]) of
                Inl e \<Rightarrow> Inl e
              | Inr file_content \<Rightarrow> Inr (dest2 @ [(''static/'' @ file, file_content)])) of
         Inl e \<Rightarrow> Inl e
       | Inr dest3 \<Rightarrow>
           for_each dirs dest3 (\<lambda>dirname dest4. read_files_from_dir fs (root @ [dirname]) dest4))"
  by pat_completeness auto

subsection \<open>The report\<close>

definition CLEAR_LINE :: string where
  "CLEAR_LINE = [CHR 0x1B] @ ''[2K''"

definition spinner_frames :: "string list" where
  "spinner_frames = [''   '', ''.  '', ''.. '', ''...'']"

text \<open>
  The polling loop of \<^verbatim>\<open>generate_system_report\<close>: one frame of the cycle for every wait
  that timed out. The worker thread changes nothing the loop reads but the event.
\<close>

definition spinner :: "string \<Rightarrow> nat \<Rightarrow> world \<Rightarrow> world" where
  "spinner nm k w =
     fold (\<lambda>i. print_no_end
             ([CHR 0x0D] @ CLEAR_LINE @ ''running '' @ nm @ spinner_frames ! (i mod 4)))
          [0..<k] w"

text \<open>
  The loop over \<^verbatim>\<open>command_configs\<close>, with the lists \<^verbatim>\<open>files\<close> and \<^verbatim>\<open>sub_reports\<close> it
  appends to.
\<close>

fun run_commands ::
  "world \<Rightarrow> CommandConfig list \<Rightarrow> entries \<Rightarrow> SubReportResult list
   \<Rightarrow> (entries \<times> SubReportResult list) \<times> world" where
  "run_commands w [] files sub_reports = ((files, sub_reports), w)"
| "run_commands w (config # rest) files sub_reports =
     (let w1 = print_no_end (''running '' @ name config) w in
      case run_command w1 config of
        (sub_report, w2) \<Rightarrow>
          (let w3 = spinner (name config) (polls w (length (executed w))) w2 in
           case sub_report of
             Some r \<Rightarrow>
               run_commands
                 (print ([CHR 0x0D] @ CLEAR_LINE @ name config @ '' completed'') w3)
                 rest
                 (if truthy (output_file config)
                  then files @ [(fmt (output_file config), raw_output r)]
                  else files)
                 (sub_reports @ [r])
           | None \<Rightarrow>
               run_commands
                 (print ([CHR 0x0D] @ CLEAR_LINE @ name config @ '' failed'') w3)
                 rest files sub_reports))"

text \<open>The template engine is outside the script: \<open>render\<close> of the world stands for it.\<close>

definition generate_html :: "world \<Rightarrow> SubReportResult list \<Rightarrow> error + string" where
  "generate_html w sub_reports =
     (case read_file (pkg w) [''report_template.html''] of
        Inl e \<Rightarrow> Inl e
      | Inr html_template \<Rightarrow>
          (case render w html_template sub_reports of
             None \<Rightarrow> Inl TemplateError
           | Some html \<Rightarrow> Inr html))"

definition generate_system_report :: "world \<Rightarrow> string \<Rightarrow> (error + entries) \<times> world" where
  "generate_system_report w config_path =
     (case read_commands w config_path of
        (Inl e, w1) \<Rightarrow> (Inl e, w1)
      | (Inr command_configs, w1) \<Rightarrow>
          (case run_commands w1 command_configs [] [] of
             ((files, sub_reports), w2) \<Rightarrow>
               (case generate_html w2 sub_reports of
                  Inl e \<Rightarrow> (Inl e, w2)
                | Inr html \<Rightarrow>
                    (case read_file (pkg w2) [''style.css''] of
                       Inl e \<Rightarrow> (Inl e, w2)
                     | Inr style \<Rightarrow>
                         (read_files_from_dir (pkg w2) [''static'']
                            (files @ [(''system_report_summary.html'', html)]
                                   @ [(''style.css'', style)]),
                          w2)))))"

text \<open>The parsed command line, and \<^verbatim>\<open>main\<close>. With \<^verbatim>\<open>--sudo\<close> the process is replaced.\<close>

record args =
  arg_output_file :: string
  arg_config :: string
  arg_sudo :: bool

definition main :: "world \<Rightarrow> args \<Rightarrow> (error + unit) \<times> world" where
  "main w a =
     (if arg_sudo a then (Inl Execv, w)
      else
        (case generate_system_report w (arg_config a) of
           (Inl e, w1) \<Rightarrow> (Inl e, w1)
         | (Inr files, w1) \<Rightarrow>
             (if writable w1 (arg_output_file a)
              then (Inr (), w1\<lparr>written := written w1 @ [(arg_output_file a, files)]\<rparr>)
              else (Inl (ArchiveUnwritable (arg_output_file a)), w1))))"

subsection \<open>Fallback chains\<close>

text \<open>The specs a command tries in turn: the spec itself, then its \<^verbatim>\<open>on_fail\<close>, and so on.\<close>

fun chain :: "CommandConfig \<Rightarrow> CommandConfig list" where
  "chain (CommandConfig nm s scs outf onf) =
     CommandConfig nm s scs outf onf # (case onf of None \<Rightarrow> [] | Some c \<Rightarrow> chain c)"

text \<open>The same chain in the configuration: a command object and its \<^verbatim>\<open>on-fail\<close> objects.\<close>

fun yaml_chain :: "yaml_command \<Rightarrow> yaml_command list" where
  "yaml_chain (YamlCommand run out su summ onf) =
     YamlCommand run out su summ onf # (case onf of None \<Rightarrow> [] | Some f \<Rightarrow> yaml_chain f)"

text \<open>
  What the \<open>i\<close>-th attempt of the chain of \<open>c\<close> captures when the chain starts in the world
  \<open>w\<close>: every attempt before it has failed and so has started exactly one subprocess.
  \<open>None\<close> when the attempt fails.
\<close>

definition attempt :: "world \<Rightarrow> CommandConfig \<Rightarrow> nat \<Rightarrow> string option" where
  "attempt w c i =
     captured (proc w (length (executed w) + i) (sh_c (script (chain c ! i))) [] None)"

text \<open>
  What the \<open>j\<close>-th summary script of \<open>c\<close> captures when \<open>c\<close> runs in the world \<open>w\<close> and its own
  script succeeds with the output \<open>out\<close>: it is the subprocess number \<open>j + 1\<close> after the
  start.
\<close>

definition summary_attempt :: "world \<Rightarrow> CommandConfig \<Rightarrow> string \<Rightarrow> nat \<Rightarrow> string option" where
  "summary_attempt w c out j =
     captured (proc w (length (executed w) + 1 + j)
       (sh_c (summary_script (summary_configs c ! j))) (summary_env w) (Some out))"

subsection \<open>The commands, run one after another\<close>

text \<open>
  What the commands of a list return when they run in turn, each starting where the one
  before it ended, and the world in which the \<open>i\<close>-th of them starts. Here the console is
  left as it is: \<^verbatim>\<open>run_command\<close> neither prints nor reads what was printed.
\<close>

fun results :: "world \<Rightarrow> CommandConfig list \<Rightarrow> SubReportResult option list" where
  "results w [] = []"
| "results w (c # cs) = fst (run_command w c) # results (snd (run_command w c)) cs"

definition start :: "world \<Rightarrow> CommandConfig list \<Rightarrow> nat \<Rightarrow> world" where
  "start w cs i = fold (\<lambda>c v. snd (run_command v c)) (take i cs) w"




subsection \<open>Comparing two runs\<close>

text \<open>
  A configuration without its marks \<^verbatim>\<open>superuser: preferred\<close>, in the command objects and in
  their \<^verbatim>\<open>on-fail\<close> objects alike, and the line that the warning for a script puts on the
  console.
\<close>

fun strip_preferred :: "yaml_command \<Rightarrow> yaml_command" where
  "strip_preferred (YamlCommand run out su summ onf) =
     YamlCommand run out (if su = Some (Str ''preferred'') then None else su) summ
       (case onf of None \<Rightarrow> None | Some f \<Rightarrow> Some (strip_preferred f))"

definition strip_items ::
  "(string \<times> yaml_command) list \<Rightarrow> (string \<times> yaml_command) list" where
  "strip_items items = map (\<lambda>(nm, y). (nm, strip_preferred y)) items"

definition skipped_warning :: "scalar \<Rightarrow> string" where
  "skipped_warning s =
     insufficient ''Warning'' s ''Output from this command will be skipped in the system report.''
     @ [CHR 0x0A]"

text \<open>
  A world without what has been printed and without its configuration files: two worlds
  with the same \<open>quiet\<close> are the same host, with the same processes, files and archives.
\<close>

definition quiet :: "world \<Rightarrow> world" where
  "quiet w = w\<lparr>console := [], yaml_files := (\<lambda>f. None)\<rparr>"

subsection \<open>A host to run the examples on\<close>

text \<open>
  An unprivileged host on which \<^verbatim>\<open>ip\<close> is not installed, \<^verbatim>\<open>false\<close> fails, \<^verbatim>\<open>echo\<close> prints its
  argument and \<^verbatim>\<open>grep\<close> finds nothing.
\<close>

definition demo_proc :: "nat \<Rightarrow> string \<Rightarrow> (string \<times> string) list \<Rightarrow> string option \<Rightarrow> outcome" where
  "demo_proc n cmd env inp =
     (if cmd = sh_c (Str ''false'') then Exited 1 []
      else if cmd = sh_c (Str ''ip addr'') then Exited 127 (''sh: 1: ip: not found'' @ [CHR 0x0A])
      else if cmd = sh_c (Str ''echo fallback-ok'') then Exited 0 (''fallback-ok'' @ [CHR 0x0A])
      else if cmd = sh_c (Str ''wc -c'') then Exited 0 (''12'' @ [CHR 0x0A])
      else if cmd = sh_c (Str ''grep inet'') then Exited 1 []
      else Broken)"

definition demo_pkg :: fsnode where
  "demo_pkg = Dir
     [(''report_template.html'', File ''<html/>''),
      (''style.css'', File ''body {}''),
      (''scripts'', Dir []),
      (''static'', Dir [(''logo.svg'', File ''<svg/>''), (''report.js'', File ''init()'')])]"

text \<open>Command objects of configurations, and the configuration files of the host.\<close>

definition disk_yaml :: yaml_command where
  "disk_yaml = YamlCommand (Some (Str ''df -h'')) None None None None"

definition net_yaml :: yaml_command where
  "net_yaml = YamlCommand (Some (Str ''false'')) None None None
     (Some (YamlCommand (Some (Str ''echo fallback-ok'')) (Some (Str ''net.txt'')) None None None))"

definition net_output_yaml :: yaml_command where
  "net_output_yaml = YamlCommand (Some (Str ''false'')) (Some (Str ''net.txt'')) None None
     (Some (YamlCommand (Some (Str ''echo fallback-ok'')) (Some (Str ''net.txt'')) None None None))"

definition dmesg_yaml :: yaml_command where
  "dmesg_yaml = YamlCommand (Some (Str ''dmesg'')) (Some (Str ''dmesg.txt''))
     (Some (Str ''required'')) None None"

text \<open>
  A command marked \<^verbatim>\<open>preferred\<close> whose script fails, with a fallback marked \<^verbatim>\<open>preferred\<close>
  too.
\<close>

definition probe_yaml :: yaml_command where
  "probe_yaml = YamlCommand (Some (Str ''false'')) (Some (Str ''probe.txt''))
     (Some (Str ''preferred'')) None
     (Some (YamlCommand (Some (Str ''wc -c'')) (Some (Str ''fallback.txt''))
        (Some (Str ''preferred'')) None None))"

text \<open>A command whose output file is the empty string.\<close>

definition silent_yaml :: yaml_command where
  "silent_yaml = YamlCommand (Some (Str ''echo fallback-ok'')) (Some (Str [])) None None None"

definition demo_yaml_files :: "string \<Rightarrow> (string \<times> yaml_command) list option" where
  "demo_yaml_files f =
     (if f = ''net.yml'' then Some [(''net'', net_yaml)]
      else if f = ''net_output.yml'' then Some [(''net'', net_output_yaml)]
      else if f = ''dmesg.yml'' then Some [(''net'', net_output_yaml), (''dmesg'', dmesg_yaml)]
      else if f = ''probe.yml'' then Some [(''net'', net_output_yaml), (''probe'', probe_yaml)]
      else if f = ''silent.yml'' then Some [(''silent'', silent_yaml)]
      else None)"

text \<open>A static directory with a subdirectory.\<close>

definition nested_pkg :: fsnode where
  "nested_pkg = Dir
     [(''report_template.html'', File ''<html/>''),
      (''style.css'', File ''body {}''),
      (''static'', Dir [(''report.js'', File ''init()''),
                       (''img'', Dir [(''logo.png'', File ''PNG'')])])]"

text \<open>What loading \<open>net_output_yaml\<close> under the name \<^verbatim>\<open>net\<close> builds.\<close>

definition net_config :: CommandConfig where
  "net_config = CommandConfig ''net'' (Str ''false'') [] (Str ''net.txt'')
     (Some (CommandConfig ''net'' (Str ''echo fallback-ok'') [] (Str ''net.txt'') None))"



definition demo_world :: world where
  "demo_world = \<lparr>uid = 1000, proc = demo_proc, executed = [], console = [],
     polls = (\<lambda>n. 2), pkg_dir = ''/opt/protoplaster'', pkg = demo_pkg,
     yaml_files = demo_yaml_files,
     render = (\<lambda>t rs. Some (t @ concat (map result_name rs))),
     writable = (\<lambda>f. True), written = []\<rparr>"


text \<open>
  What loading \<open>probe_yaml\<close> builds, the host after the two warnings of loading
  \<^verbatim>\<open>probe.yml\<close> without root, and the host whose configurations have no mark
  \<^verbatim>\<open>superuser: preferred\<close>.
\<close>

definition probe_config :: CommandConfig where
  "probe_config = CommandConfig ''probe'' (Str ''false'') [] (Str ''probe.txt'')
     (Some (CommandConfig ''probe'' (Str ''wc -c'') [] (Str ''fallback.txt'') None))"

definition warned_world :: world where
  "warned_world =
     demo_world\<lparr>console := [skipped_warning (Str ''false''), skipped_warning (Str ''wc -c'')]\<rparr>"

definition plain_world :: world where
  "plain_world =
     demo_world\<lparr>yaml_files := (\<lambda>f. map_option strip_items (demo_yaml_files f))\<rparr>"

text \<open>
  A command whose script needs \<^verbatim>\<open>ip\<close> and whose fallback prints a line and has two
  summaries.
\<close>

definition demo_fallback :: CommandConfig where
  "demo_fallback = CommandConfig ''net'' (Str ''echo fallback-ok'')
     [SummaryConfig (Str ''size'') (Str ''wc -c''), SummaryConfig (Str ''addresses'') (Str ''grep inet'')]
     (Str ''fallback.txt'') None"

definition demo_net :: CommandConfig where
  "demo_net = CommandConfig ''net'' (Str ''ip addr'') [] (Str ''net.txt'') (Some demo_fallback)"

section \<open>Termination of the walk over the static assets\<close>

lemma lookup_append: "lookup n p = Some m \<Longrightarrow> lookup n (p @ q) = lookup m q"
  by (induction n p rule: lookup.induct) (auto split: option.splits)

lemma entry_size: "(p, m) \<in> set es \<Longrightarrow> size m < size (Dir es)"
  by (induction es) auto

lemma lookup_size: "lookup n q = Some m \<Longrightarrow> q \<noteq> [] \<Longrightarrow> size m < size n"
proof (induction n q rule: lookup.induct)
  case (3 es p ps)
  then obtain k where k: "map_of es p = Some k" and l: "lookup k ps = Some m"
    by (auto split: option.splits)
  from k have "size k < size (Dir es)" by (auto dest!: map_of_SomeD entry_size)
  moreover have "size m \<le> size k"
  proof (cases ps)
    case Nil
    with l show ?thesis by simp
  next
    case (Cons a as)
    with 3 k l show ?thesis by auto
  qed
  ultimately show ?case by simp
qed auto

lemma walk_node_roots: "(root, dirs, files) \<in> set (walk_node t n) \<Longrightarrow> \<exists>q. root = t @ q"
proof (induction n arbitrary: t)
  case (File c)
  then show ?case by simp
next
  case (Dir es)
  then show ?case by (fastforce simp: snds.simps)
qed

termination read_files_from_dir
proof (relation "measure (\<lambda>(fs, dir, dest).
    case lookup fs dir of None \<Rightarrow> 0 | Some n \<Rightarrow> Suc (size n))")
  show "wf (measure (\<lambda>(fs, dir, dest).
    case lookup fs dir of None \<Rightarrow> 0 | Some n \<Rightarrow> Suc (size n)))"
    by simp
next
  fix fs :: fsnode and dir :: path and dest :: entries
    and tr root y dirs files dirname and dest4 :: entries
  assume "tr \<in> set (os_walk fs dir)" "(root, y) = tr" "(dirs, files) = y"
  then have "(root, dirs, files) \<in> set (os_walk fs dir)" by auto
  then obtain n where n: "lookup fs dir = Some n"
    and wn: "(root, dirs, files) \<in> set (walk_node dir n)"
    by (cases "lookup fs dir") (auto simp: os_walk_def)
  from walk_node_roots [OF wn] obtain q where q: "root = dir @ q" by blast
  have "lookup fs (root @ [dirname]) = lookup n (q @ [dirname])"
    using lookup_append [OF n] q by simp
  then show "((fs, root @ [dirname], dest4), (fs, dir, dest)) \<in> measure (\<lambda>(fs, dir, dest).
    case lookup fs dir of None \<Rightarrow> 0 | Some n \<Rightarrow> Suc (size n))"
    using n lookup_size [of n "q @ [dirname]"] by (auto split: option.splits)
qed

declare read_files_from_dir.simps [simp del]

section \<open>Running a command and its fallback chain\<close>

lemma run_summaries_world:
  "snd (run_summaries w out scs) =
     w\<lparr>executed := executed w @ map (\<lambda>s. sh_c (summary_script s)) scs\<rparr>"
  by (induction scs arbitrary: w) (simp_all add: check_output_def split_beta)

lemma run_summaries_length: "length (fst (run_summaries w out scs)) = length scs"
  by (induction scs arbitrary: w) (simp_all add: check_output_def split_beta)

lemma run_summaries_nth:
  "j < length scs \<Longrightarrow>
   fst (run_summaries w out scs) ! j =
     SubReportSummary (summary_title (scs ! j))
       (case captured (proc w (length (executed w) + j) (sh_c (summary_script (scs ! j)))
               (summary_env w) (Some out)) of
          Some t \<Rightarrow> t | None \<Rightarrow> sentinel)"
proof (induction scs arbitrary: w j)
  case Nil
  then show ?case by simp
next
  case (Cons s scs)
  show ?case
  proof (cases j)
    case 0
    then show ?thesis by (simp add: check_output_def split_beta)
  next
    case (Suc i)
    with Cons.prems have i: "i < length scs" by simp
    show ?thesis
      using Cons.IH [OF i, of "w\<lparr>executed := executed w @ [sh_c (summary_script s)]\<rparr>"] Suc
      by (simp add: check_output_def summary_env_def split_beta)
  qed
qed

lemma chain_unfold: "chain c = c # (case on_fail c of None \<Rightarrow> [] | Some f \<Rightarrow> chain f)"
  by (cases c) simp

lemma chain_nth_0: "chain c ! 0 = c"
  by (cases c) simp

lemma run_command_unfold:
  "run_command w c =
     (case attempt w c 0 of
        Some out \<Rightarrow>
          (Some (SubReportResult (name c) out (output_file c)
                   (fst (run_summaries (w\<lparr>executed := executed w @ [sh_c (script c)]\<rparr>)
                      out (summary_configs c)))),
           snd (run_summaries (w\<lparr>executed := executed w @ [sh_c (script c)]\<rparr>)
                  out (summary_configs c)))
      | None \<Rightarrow>
          (case on_fail c of
             Some f \<Rightarrow> run_command (w\<lparr>executed := executed w @ [sh_c (script c)]\<rparr>) f
           | None \<Rightarrow> (None, w\<lparr>executed := executed w @ [sh_c (script c)]\<rparr>)))"
  by (cases c)
     (simp add: attempt_def get_cmd_output_def check_output_def split_beta
           split: option.splits)

lemma attempt_Suc:
  "on_fail c = Some f \<Longrightarrow>
   attempt w c (Suc i) = attempt (w\<lparr>executed := executed w @ [x]\<rparr>) f i"
  by (cases c) (simp add: attempt_def)

text \<open>
  When the attempts before the \<open>k\<close>-th fail and the \<open>k\<close>-th succeeds, the result is built
  from the \<open>k\<close>-th spec and its output alone.
\<close>

lemma run_command_succeeds:
  assumes "k < length (chain c)" and "\<forall>i<k. attempt w c i = None" and "attempt w c k = Some out"
  shows "\<exists>w'. run_command w c =
           (Some (SubReportResult (name (chain c ! k)) out (output_file (chain c ! k))
              (fst (run_summaries
                 (w\<lparr>executed := executed w @ map (\<lambda>a. sh_c (script a)) (take (Suc k) (chain c))\<rparr>)
                 out (summary_configs (chain c ! k))))), w')"
  using assms
proof (induction k arbitrary: w c)
  case 0
  then show ?case
    by (subst run_command_unfold) (simp add: chain_nth_0 chain_unfold [of c])
next
  case (Suc k)
  from Suc.prems(1) obtain f where f: "on_fail c = Some f"
    by (cases "on_fail c") (simp_all add: chain_unfold [of c])
  let ?w1 = "w\<lparr>executed := executed w @ [sh_c (script c)]\<rparr>"
  have ch: "chain c = c # chain f" using f by (simp add: chain_unfold [of c])
  have a0: "attempt w c 0 = None" using Suc.prems(2) by simp
  have 1: "k < length (chain f)" using Suc.prems(1) ch by simp
  have 2: "\<forall>i<k. attempt ?w1 f i = None"
    using Suc.prems(2) attempt_Suc [OF f, of w] by auto
  have 3: "attempt ?w1 f k = Some out"
    using Suc.prems(3) attempt_Suc [OF f, of w] by simp
  from Suc.IH [OF 1 2 3] obtain w' where
    "run_command ?w1 f =
       (Some (SubReportResult (name (chain f ! k)) out (output_file (chain f ! k))
          (fst (run_summaries
             (?w1\<lparr>executed := executed ?w1 @ map (\<lambda>a. sh_c (script a)) (take (Suc k) (chain f))\<rparr>)
             out (summary_configs (chain f ! k))))), w')" by blast
  then show ?case
    by (subst run_command_unfold) (simp add: a0 f ch)
qed

text \<open>Conversely, a result comes from exactly one attempt of the chain.\<close>

lemma run_command_Some:
  "run_command w c = (Some r, w') \<Longrightarrow>
   \<exists>k<length (chain c). (\<forall>i<k. attempt w c i = None) \<and> attempt w c k = Some (raw_output r)
     \<and> result_name r = name (chain c ! k)
     \<and> result_output_file r = output_file (chain c ! k)
     \<and> length (summaries r) = length (summary_configs (chain c ! k))"
proof (induction c arbitrary: w)
  case (CommandConfig nm s scs outf onf)
  let ?c = "CommandConfig nm s scs outf onf"
  let ?w1 = "w\<lparr>executed := executed w @ [sh_c (script ?c)]\<rparr>"
  show ?case
  proof (cases "attempt w ?c 0")
    case (Some out)
    with CommandConfig.prems
    have "r = SubReportResult nm out outf (fst (run_summaries ?w1 out scs))"
      by (subst (asm) run_command_unfold) simp
    with Some have "(\<forall>i<0. attempt w ?c i = None) \<and> attempt w ?c 0 = Some (raw_output r)
     \<and> result_name r = name (chain ?c ! 0)
     \<and> result_output_file r = output_file (chain ?c ! 0)
     \<and> length (summaries r) = length (summary_configs (chain ?c ! 0))"
      by (simp add: run_summaries_length)
    then show ?thesis by (intro exI [of _ 0]) simp
  next
    case None
    with CommandConfig.prems obtain f where f: "onf = Some f"
      and rf: "run_command ?w1 f = (Some r, w')"
      by (subst (asm) run_command_unfold) (cases onf; simp)
    from CommandConfig.IH [of f, OF _ rf] f obtain k where k: "k < length (chain f)"
      "\<forall>i<k. attempt ?w1 f i = None" "attempt ?w1 f k = Some (raw_output r)"
      "result_name r = name (chain f ! k)" "result_output_file r = output_file (chain f ! k)"
      "length (summaries r) = length (summary_configs (chain f ! k))" by auto
    have onf: "on_fail ?c = Some f" using f by simp
    have "\<forall>i<Suc k. attempt w ?c i = None"
    proof (intro allI impI)
      fix i assume "i < Suc k"
      then show "attempt w ?c i = None"
        using None k(2) attempt_Suc [OF onf, of w] by (cases i) auto
    qed
    moreover have "attempt w ?c (Suc k) = Some (raw_output r)"
      using k(3) attempt_Suc [OF onf, of w] by simp
    ultimately show ?thesis using k f by (intro exI [of _ "Suc k"]) simp
  qed
qed

text \<open>
  C1. In a fallback chain whose attempts before the \<open>k\<close>-th fail (whatever they print) and
  whose \<open>k\<close>-th attempt succeeds with the output \<open>out\<close>, \<^verbatim>\<open>run_command\<close> returns a result
  whose raw output is exactly \<open>out\<close>; the result holds the name, the output file and the
  summaries of the \<open>k\<close>-th spec, the summaries being computed from \<open>out\<close>.
\<close>

theorem fallback_chain_result:
  assumes "k < length (chain c)"
    and "\<forall>i<k. attempt w c i = None"
    and "attempt w c k = Some out"
  shows "\<exists>r w'. run_command w c = (Some r, w') \<and> raw_output r = out
    \<and> r = SubReportResult (name (chain c ! k)) out (output_file (chain c ! k))
          (fst (run_summaries
             (w\<lparr>executed := executed w @ map (\<lambda>a. sh_c (script a)) (take (Suc k) (chain c))\<rparr>)
             out (summary_configs (chain c ! k))))"
proof -
  from run_command_succeeds [OF assms] obtain w' where
    "run_command w c =
       (Some (SubReportResult (name (chain c ! k)) out (output_file (chain c ! k))
          (fst (run_summaries
             (w\<lparr>executed := executed w @ map (\<lambda>a. sh_c (script a)) (take (Suc k) (chain c))\<rparr>)
             out (summary_configs (chain c ! k))))), w')" by blast
  then show ?thesis by simp
qed

theorem fallback_chain_result_witness:
  "1 < length (chain demo_net) \<and> attempt demo_world demo_net 0 = None
   \<and> attempt demo_world demo_net 1 = Some (''fallback-ok'' @ [CHR 0x0A])
   \<and> (\<exists>r w'. run_command demo_world demo_net = (Some r, w')
        \<and> raw_output r = ''fallback-ok'' @ [CHR 0x0A]
        \<and> result_name r = ''net'' \<and> result_output_file r = Str ''fallback.txt'')"
proof -
  have 1: "1 < length (chain demo_net)" by (simp add: demo_net_def demo_fallback_def)
  have 2: "\<forall>i<1. attempt demo_world demo_net i = None"
    by (simp add: attempt_def demo_net_def demo_fallback_def demo_world_def demo_proc_def sh_c_def)
  have 3: "attempt demo_world demo_net 1 = Some (''fallback-ok'' @ [CHR 0x0A])"
    by (simp add: attempt_def demo_net_def demo_fallback_def demo_world_def demo_proc_def sh_c_def)
  have 4: "chain demo_net ! 1 = demo_fallback" by (simp add: demo_net_def demo_fallback_def)
  from fallback_chain_result [OF 1 2 3] obtain r w' where
    "run_command demo_world demo_net = (Some r, w')"
    "raw_output r = ''fallback-ok'' @ [CHR 0x0A]"
    "result_name r = name (chain demo_net ! 1)"
    "result_output_file r = output_file (chain demo_net ! 1)"
    by auto
  then have "\<exists>r w'. run_command demo_world demo_net = (Some r, w')
        \<and> raw_output r = ''fallback-ok'' @ [CHR 0x0A]
        \<and> result_name r = ''net'' \<and> result_output_file r = Str ''fallback.txt''"
    unfolding 4 by (auto simp: demo_fallback_def)
  with 1 2 3 show ?thesis by simp
qed

text \<open>
  C2. A result of \<^verbatim>\<open>run_command\<close> comes from one attempt of the chain, the first that
  succeeds, and has as many summaries as the spec of that attempt has summary specs,
  whatever the summary scripts did.
\<close>

theorem summaries_length:
  assumes "run_command w c = (Some r, w')"
  shows "\<exists>k<length (chain c). (\<forall>i<k. attempt w c i = None)
    \<and> attempt w c k = Some (raw_output r)
    \<and> length (summaries r) = length (summary_configs (chain c ! k))"
  using run_command_Some [OF assms] by blast

theorem summaries_length_witness:
  "fst (run_command demo_world demo_net) =
     Some (SubReportResult ''net'' (''fallback-ok'' @ [CHR 0x0A]) (Str ''fallback.txt'')
       [SubReportSummary (Str ''size'') (''12'' @ [CHR 0x0A]),
        SubReportSummary (Str ''addresses'') ''this summary is empty''])
   \<and> (\<exists>k<length (chain demo_net).
        length (summaries (the (fst (run_command demo_world demo_net)))) =
        length (summary_configs (chain demo_net ! k)))"
proof -
  have run: "fst (run_command demo_world demo_net) =
     Some (SubReportResult ''net'' (''fallback-ok'' @ [CHR 0x0A]) (Str ''fallback.txt'')
       [SubReportSummary (Str ''size'') (''12'' @ [CHR 0x0A]),
        SubReportSummary (Str ''addresses'') ''this summary is empty''])"
    by (simp add: demo_net_def demo_fallback_def demo_world_def demo_proc_def sh_c_def
          get_cmd_output_def check_output_def summary_env_def sentinel_def)
  then have "run_command demo_world demo_net =
    (Some (the (fst (run_command demo_world demo_net))), snd (run_command demo_world demo_net))"
    by (simp add: prod_eq_iff)
  from summaries_length [OF this] run show ?thesis by auto
qed

text \<open>
  C6. When the script of a command succeeds with the output \<open>out\<close> and its \<open>j\<close>-th summary
  script fails on \<open>out\<close>, \<^verbatim>\<open>run_command\<close> still returns the result of the command, with all
  its summaries, and the \<open>j\<close>-th of them holds the title of its spec and the text
  \<^verbatim>\<open>this summary is empty\<close>.
\<close>

theorem failed_summary_sentinel:
  assumes "attempt w c 0 = Some out"
    and "j < length (summary_configs c)"
    and "summary_attempt w c out j = None"
  shows "\<exists>r w'. run_command w c = (Some r, w') \<and> raw_output r = out
    \<and> length (summaries r) = length (summary_configs c)
    \<and> summaries r ! j =
        SubReportSummary (summary_title (summary_configs c ! j)) ''this summary is empty''"
proof -
  let ?w1 = "w\<lparr>executed := executed w @ [sh_c (script c)]\<rparr>"
  let ?ss = "fst (run_summaries ?w1 out (summary_configs c))"
  have "run_command w c =
    (Some (SubReportResult (name c) out (output_file c) ?ss),
     snd (run_summaries ?w1 out (summary_configs c)))"
    using assms(1) by (subst run_command_unfold) simp
  moreover have "length ?ss = length (summary_configs c)"
    by (rule run_summaries_length)
  moreover have "?ss ! j =
    SubReportSummary (summary_title (summary_configs c ! j)) ''this summary is empty''"
    using run_summaries_nth [OF assms(2), of ?w1 out] assms(3)
    by (simp add: summary_attempt_def summary_env_def sentinel_def)
  ultimately show ?thesis by simp
qed

theorem failed_summary_sentinel_witness:
  "attempt demo_world demo_fallback 0 = Some (''fallback-ok'' @ [CHR 0x0A])
   \<and> 1 < length (summary_configs demo_fallback)
   \<and> summary_attempt demo_world demo_fallback (''fallback-ok'' @ [CHR 0x0A]) 1 = None
   \<and> (\<exists>r w'. run_command demo_world demo_fallback = (Some r, w')
        \<and> raw_output r = ''fallback-ok'' @ [CHR 0x0A]
        \<and> length (summaries r) = 2
        \<and> summaries r ! 1 = SubReportSummary (Str ''addresses'') ''this summary is empty'')"
proof -
  have 1: "attempt demo_world demo_fallback 0 = Some (''fallback-ok'' @ [CHR 0x0A])"
    by (simp add: attempt_def demo_fallback_def demo_world_def demo_proc_def sh_c_def)
  have 2: "1 < length (summary_configs demo_fallback)"
    by (simp add: demo_fallback_def)
  have 3: "summary_attempt demo_world demo_fallback (''fallback-ok'' @ [CHR 0x0A]) 1 = None"
    by (simp add: summary_attempt_def demo_fallback_def demo_world_def demo_proc_def sh_c_def)
  have 4: "length (summary_configs demo_fallback) = 2"
    "summary_title (summary_configs demo_fallback ! 1) = Str ''addresses''"
    by (simp_all add: demo_fallback_def)
  from failed_summary_sentinel [OF 1 2 3] 1 2 3 show ?thesis
    unfolding 4 by simp
qed

section \<open>Required keys of a command\<close>

text \<open>
  C5, as the script has it. The key \<^verbatim>\<open>output\<close> is required: a command object that omits it,
  with or without \<^verbatim>\<open>run\<close>, is rejected when the configuration is loaded. The script prints
  that the config of the command is invalid and exits with status 1, so that loading the
  list of commands ends there.
\<close>

theorem output_required:
  assumes "y_output config = None"
  shows "CommandConfig_init w (nm, config) =
           (Inl (SystemExit 1), print (''Error: '' @ nm @ '' config is invalid'') w)
    \<and> command_configs_init w ((nm, config) # rest) =
           (Inl (SystemExit 1), print (''Error: '' @ nm @ '' config is invalid'') w)"
  using assms by (cases config) (simp add: required_fields_present_def)

theorem output_required_witness:
  "y_output net_yaml = None
   \<and> CommandConfig_init demo_world (''net'', net_yaml) =
        (Inl (SystemExit 1), print ''Error: net config is invalid'' demo_world)"
proof -
  have 1: "y_output net_yaml = None" by (simp add: net_yaml_def)
  from output_required [OF 1, of demo_world "''net''" "[]"] 1 show ?thesis by simp
qed

text \<open>The command \<^verbatim>\<open>{"disk": {"run": "df -h"}}\<close> has \<^verbatim>\<open>run\<close>, omits \<^verbatim>\<open>output\<close> and is refused.\<close>

theorem output_omitted_counterexample:
  "y_run disk_yaml = Some (Str ''df -h'') \<and> y_output disk_yaml = None
   \<and> fst (CommandConfig_init demo_world (''disk'', disk_yaml)) = Inl (SystemExit 1)
   \<and> console (snd (CommandConfig_init demo_world (''disk'', disk_yaml))) =
       [''Error: disk config is invalid'' @ [CHR 0x0A]]"
  by (simp add: disk_yaml_def required_fields_present_def print_def demo_world_def)

section \<open>The static assets\<close>

text \<open>
  C8 fails on the code. With the static directory \<^verbatim>\<open>static/{report.js, img/{logo.png}}\<close> the
  walk first registers \<^verbatim>\<open>report.js\<close>, descends into \<^verbatim>\<open>img\<close> by the recursive call and
  registers \<^verbatim>\<open>logo.png\<close>, and then meets the triple of \<^verbatim>\<open>img\<close> a second time in the walk of
  \<^verbatim>\<open>static\<close> itself, where it opens \<^verbatim>\<open>static/logo.png\<close>: the file is joined to the argument
  \<^verbatim>\<open>dir\<close>, not to the \<^verbatim>\<open>root\<close> of the triple. The file exists only below \<^verbatim>\<open>img\<close>, and the
  exception ends the run.
\<close>

theorem nested_static_crash:
  "read_files_from_dir nested_pkg [''static''] [] =
     Inl (FileNotFoundError [''static'', ''logo.png''])
   \<and> lookup nested_pkg [''static'', ''img'', ''logo.png''] = Some (File ''PNG'')"
  by (simp add: read_files_from_dir.simps nested_pkg_def os_walk_def read_file_def
        dirnames_def filenames_def)

section \<open>The loop over the commands\<close>

lemma spinner_console:
  "spinner nm k w = w\<lparr>console := console w @
     map (\<lambda>i. [CHR 0x0D] @ CLEAR_LINE @ ''running '' @ nm @ spinner_frames ! (i mod 4)) [0..<k]\<rparr>"
  by (induction k) (simp_all add: spinner_def print_no_end_def)

lemma attempt_console [simp]: "attempt (w\<lparr>console := k\<rparr>) c i = attempt w c i"
  by (simp add: attempt_def)



section \<open>Assembling the file list\<close>

text \<open>The walk over the static assets only appends to the list it is given.\<close>

lemma map_sum_append: "map_sum id ((@) s) (map_sum id ((@) t) r) = map_sum id ((@) (s @ t)) r"
  by (cases r) simp_all

lemma for_each_append:
  assumes "\<And>x s. x \<in> set xs \<Longrightarrow> body x s = map_sum id ((@) s) (body x [])"
  shows "for_each xs s body = map_sum id ((@) s) (for_each xs [] body)"
  using assms
proof (induction xs arbitrary: s)
  case Nil
  show ?case by simp
next
  case (Cons x xs)
  have b: "body x s = map_sum id ((@) s) (body x [])" by (rule Cons.prems) simp
  have ih: "\<And>u. for_each xs u body = map_sum id ((@) u) (for_each xs [] body)"
    by (rule Cons.IH) (rule Cons.prems, simp)
  show ?case
  proof (cases "body x []")
    case (Inl e)
    with b show ?thesis by simp
  next
    case (Inr t)
    then have bs: "body x s = Inr (s @ t)" using b by simp
    have "for_each (x # xs) s body = for_each xs (s @ t) body" using bs by simp
    also have "\<dots> = map_sum id ((@) (s @ t)) (for_each xs [] body)" by (rule ih)
    also have "\<dots> = map_sum id ((@) s) (map_sum id ((@) t) (for_each xs [] body))"
      by (simp only: map_sum_append)
    also have "map_sum id ((@) t) (for_each xs [] body) = for_each xs t body"
      by (rule ih [symmetric])
    also have "for_each xs t body = for_each (x # xs) [] body" using Inr by simp
    finally show ?thesis .
  qed
qed

lemma read_files_from_dir_append:
  "read_files_from_dir fs dir dest = map_sum id ((@) dest) (read_files_from_dir fs dir [])"
proof (induction fs dir dest rule: read_files_from_dir.induct)
  case step: (1 fs dir dest)
  let ?rd = "\<lambda>file dest2. case read_file fs (dir @ [file]) of Inl x \<Rightarrow> Inl x
              | Inr file_content \<Rightarrow> Inr (dest2 @ [(''static/'' @ file, file_content)])"
  let ?body = "\<lambda>(root, dirs, files) dest1.
       case for_each files dest1 ?rd of
         Inl e \<Rightarrow> Inl e
       | Inr dest3 \<Rightarrow>
           for_each dirs dest3 (\<lambda>dirname dest4. read_files_from_dir fs (root @ [dirname]) dest4)"
  have rd: "\<And>files u. for_each files u ?rd = map_sum id ((@) u) (for_each files [] ?rd)"
    by (rule for_each_append) (simp split: sum.splits)
  have "for_each (os_walk fs dir) dest ?body
     = map_sum id ((@) dest) (for_each (os_walk fs dir) [] ?body)"
  proof (rule for_each_append)
    fix x s
    assume x: "x \<in> set (os_walk fs dir)"
    obtain root dirs files where xe: "x = (root, dirs, files)" by (cases x)
    let ?sub = "\<lambda>dirname dest4. read_files_from_dir fs (root @ [dirname]) dest4"
    show "?body x s = map_sum id ((@) s) (?body x [])"
    proof (cases "for_each files [] ?rd")
      case (Inl e)
      then show ?thesis using rd [of files s] by (simp add: xe)
    next
      case (Inr t)
      then have fs: "for_each files s ?rd = Inr (s @ t)" using rd [of files s] by simp
      have sub: "\<And>u. for_each dirs u ?sub = map_sum id ((@) u) (for_each dirs [] ?sub)"
      proof (rule for_each_append)
        fix d v assume d: "d \<in> set dirs"
        show "read_files_from_dir fs (root @ [d]) v =
           map_sum id ((@) v) (read_files_from_dir fs (root @ [d]) [])"
          by (rule step.IH [OF x _ _ Inr, of root "(dirs, files)" dirs]) (simp_all add: xe d)
      qed
      show ?thesis
        using Inr fs sub [of "s @ t"] sub [of t]
        by (simp add: xe map_sum_append)
    qed
  qed
  then show ?case by (subst (1 2) read_files_from_dir.simps)
qed

text \<open>Running commands changes the list of started subprocesses and the console only.\<close>

lemma run_command_world: "\<exists>e. snd (run_command w c) = w\<lparr>executed := e\<rparr>"
proof (induction c arbitrary: w)
  case (CommandConfig nm s scs outf onf)
  let ?c = "CommandConfig nm s scs outf onf"
  let ?w1 = "w\<lparr>executed := executed w @ [sh_c s]\<rparr>"
  show ?case
  proof (cases "attempt w ?c 0")
    case (Some out)
    then have "snd (run_command w ?c) =
      w\<lparr>executed := executed w @ (sh_c s # map (\<lambda>s. sh_c (summary_script s)) scs)\<rparr>"
      by (subst run_command_unfold) (simp add: run_summaries_world)
    then show ?thesis by blast
  next
    case None
    show ?thesis
    proof (cases onf)
      case None
      have "snd (run_command w ?c) = w\<lparr>executed := executed w @ [sh_c s]\<rparr>"
        using None \<open>attempt w ?c 0 = None\<close> by (subst run_command_unfold) simp
      then show ?thesis by blast
    next
      case (Some f)
      from CommandConfig.IH [of f ?w1] Some obtain e where
        "snd (run_command ?w1 f) = ?w1\<lparr>executed := e\<rparr>" by auto
      then have "snd (run_command w ?c) = w\<lparr>executed := e\<rparr>"
        using Some \<open>attempt w ?c 0 = None\<close> by (subst run_command_unfold) simp
      then show ?thesis by blast
    qed
  qed
qed

lemma run_commands_failed:
  assumes "run_command (print_no_end (''running '' @ name c) w) c = (None, w2)"
  shows "run_commands w (c # cs) files subs =
    run_commands
      (print ([CHR 0x0D] @ CLEAR_LINE @ name c @ '' failed'')
         (spinner (name c) (polls w (length (executed w))) w2))
      cs files subs"
  using assms by simp

lemma run_commands_completed:
  assumes "run_command (print_no_end (''running '' @ name c) w) c = (Some r, w2)"
  shows "run_commands w (c # cs) files subs =
    run_commands
      (print ([CHR 0x0D] @ CLEAR_LINE @ name c @ '' completed'')
         (spinner (name c) (polls w (length (executed w))) w2))
      cs
      (if truthy (output_file c) then files @ [(fmt (output_file c), raw_output r)] else files)
      (subs @ [r])"
  using assms by simp

lemma run_commands_world:
  "\<exists>e k. snd (run_commands w cs files subs) = w\<lparr>executed := e, console := k\<rparr>"
proof (induction cs arbitrary: w files subs)
  case Nil
  have "snd (run_commands w [] files subs) = w\<lparr>executed := executed w, console := console w\<rparr>"
    by simp
  then show ?case by blast
next
  case (Cons c cs)
  let ?w1 = "print_no_end (''running '' @ name c) w"
  obtain e1 where c1: "snd (run_command ?w1 c) = ?w1\<lparr>executed := e1\<rparr>"
    using run_command_world by blast
  obtain r where r: "run_command ?w1 c = (r, ?w1\<lparr>executed := e1\<rparr>)"
    using c1 by (cases "run_command ?w1 c") simp
  let ?w3 = "spinner (name c) (polls w (length (executed w))) (?w1\<lparr>executed := e1\<rparr>)"
  show ?case
  proof (cases r)
    case None
    let ?w4 = "print ([CHR 0x0D] @ CLEAR_LINE @ name c @ '' failed'') ?w3"
    from Cons.IH [of ?w4 files subs] obtain e k where
      "snd (run_commands ?w4 cs files subs) = ?w4\<lparr>executed := e, console := k\<rparr>" by blast
    then have "snd (run_commands w (c # cs) files subs) = w\<lparr>executed := e, console := k\<rparr>"
      using r None
      by (simp add: run_commands_failed print_def print_no_end_def spinner_console
            del: run_commands.simps)
    then show ?thesis by blast
  next
    case (Some res)
    let ?w4 = "print ([CHR 0x0D] @ CLEAR_LINE @ name c @ '' completed'') ?w3"
    let ?files = "if truthy (output_file c) then files @ [(fmt (output_file c), raw_output res)] else files"
    from Cons.IH [of ?w4 ?files "subs @ [res]"] obtain e k where
      "snd (run_commands ?w4 cs ?files (subs @ [res])) = ?w4\<lparr>executed := e, console := k\<rparr>"
      by blast
    then have "snd (run_commands w (c # cs) files subs) = w\<lparr>executed := e, console := k\<rparr>"
      using r Some
      by (simp add: run_commands_completed print_def print_no_end_def spinner_console
            del: run_commands.simps)
    then show ?thesis by blast
  qed
qed



section \<open>A run that succeeds\<close>

lemma run_commands_pkg [simp]: "pkg (snd (run_commands w cs files subs)) = pkg w"
  using run_commands_world [of w cs files subs] by auto

lemma run_commands_render [simp]: "render (snd (run_commands w cs files subs)) = render w"
  using run_commands_world [of w cs files subs] by auto

lemma run_commands_written [simp]: "written (snd (run_commands w cs files subs)) = written w"
  using run_commands_world [of w cs files subs] by auto

lemma run_commands_writable [simp]: "writable (snd (run_commands w cs files subs)) = writable w"
  using run_commands_world [of w cs files subs] by auto

lemma generate_html_frame:
  "pkg v = pkg w \<Longrightarrow> render v = render w \<Longrightarrow> generate_html v subs = generate_html w subs"
  by (simp add: generate_html_def split: sum.splits)

lemma generate_system_report_ok:
  assumes "read_commands w p = (Inr configs, w1)"
    and "fst (run_commands w1 configs [] []) = (fl, subs)"
    and "generate_html w1 subs = Inr html"
    and "read_file (pkg w1) [''style.css''] = Inr style"
    and "read_files_from_dir (pkg w1) [''static''] [] = Inr statics"
  shows "\<exists>w'. generate_system_report w p =
    (Inr (fl @ [(''system_report_summary.html'', html), (''style.css'', style)] @ statics), w')
    \<and> written w' = written w1 \<and> writable w' = writable w1"
proof -
  obtain w2 where run: "run_commands w1 configs [] [] = ((fl, subs), w2)"
    using assms(2) by (cases "run_commands w1 configs [] []") simp
  have fr: "pkg w2 = pkg w1" "render w2 = render w1" "written w2 = written w1"
    "writable w2 = writable w1"
    using run_commands_pkg [of w1 configs "[]" "[]"] run_commands_render [of w1 configs "[]" "[]"]
      run_commands_written [of w1 configs "[]" "[]"] run_commands_writable [of w1 configs "[]" "[]"]
    by (simp_all add: run)
  have html: "generate_html w2 subs = Inr html"
    using assms(3) generate_html_frame [OF fr(1,2)] by simp
  have st: "read_files_from_dir (pkg w1) [''static'']
      (fl @ [(''system_report_summary.html'', html)] @ [(''style.css'', style)]) =
      Inr ((fl @ [(''system_report_summary.html'', html)] @ [(''style.css'', style)]) @ statics)"
    using assms(5) read_files_from_dir_append [of "pkg w1" "[''static'']"
      "fl @ [(''system_report_summary.html'', html)] @ [(''style.css'', style)]"] by simp
  have "generate_system_report w p =
    (Inr (fl @ [(''system_report_summary.html'', html), (''style.css'', style)] @ statics), w2)"
    unfolding generate_system_report_def
    using assms(1,4) run html st fr(1) by simp
  with fr show ?thesis by simp
qed

lemma run_commands_single:
  assumes "k < length (chain c)"
    and "\<forall>i<k. attempt w c i = None"
    and "attempt w c k = Some out"
    and "summary_configs (chain c ! k) = []"
  shows "fst (run_commands w [c] files subs) =
           (files @ (if truthy (output_file c) then [(fmt (output_file c), out)] else []),
            subs @ [SubReportResult (name (chain c ! k)) out (output_file (chain c ! k)) []])"
proof -
  let ?w1 = "print_no_end (''running '' @ name c) w"
  have "\<forall>i<k. attempt ?w1 c i = None" "attempt ?w1 c k = Some out"
    using assms(2,3) by (simp_all add: print_no_end_def)
  from run_command_succeeds [OF assms(1) this] obtain w2 where
    "run_command ?w1 c =
       (Some (SubReportResult (name (chain c ! k)) out (output_file (chain c ! k)) []), w2)"
    by (auto simp: assms(4))
  then show ?thesis by (simp add: run_commands_completed del: run_commands.simps(2))
qed

lemma read_net_output:
  assumes "yaml_files w p = Some [(''net'', net_output_yaml)]"
  shows "read_commands w p = (Inr [net_config], w)"
  using assms
  by (simp add: read_commands_def read_config_def net_output_yaml_def net_config_def
        required_fields_present_def superuser_correct_def check_superuser_def)

lemma run_net_config:
  assumes "captured (proc w (length (executed w)) (sh_c (Str ''false'')) [] None) = None"
    and "captured (proc w (Suc (length (executed w))) (sh_c (Str ''echo fallback-ok'')) [] None)
           = Some out"
  shows "fst (run_commands w [net_config] [] []) =
    ([(''net.txt'', out)], [SubReportResult ''net'' out (Str ''net.txt'') []])"
proof -
  have 1: "1 < length (chain net_config)" by (simp add: net_config_def)
  have 2: "\<forall>i<1. attempt w net_config i = None"
    using assms(1) by (simp add: attempt_def net_config_def)
  have 3: "attempt w net_config 1 = Some out"
    using assms(2) by (simp add: attempt_def net_config_def)
  have 4: "summary_configs (chain net_config ! 1) = []" by (simp add: net_config_def)
  from run_commands_single [OF 1 2 3 4, of "[]" "[]"] show ?thesis
    by (simp add: net_config_def del: run_commands.simps)
qed

text \<open>
  C4, as the script has it. The configuration of the claim is refused, because the
  top-level command has no \<^verbatim>\<open>output\<close>. With \<^verbatim>\<open>output: net.txt\<close> added to the top-level command, on
  a host where \<^verbatim>\<open>false\<close> fails, \<^verbatim>\<open>echo fallback-ok\<close> prints that line, and the template, the
  stylesheet and the static assets can be read, the run succeeds and writes an archive
  whose first entry is \<^verbatim>\<open>net.txt\<close> with the content \<^verbatim>\<open>fallback-ok\<close> and a line feed.
\<close>

theorem net_example_with_output:
  assumes "yaml_files w (arg_config a) = Some [(''net'', net_output_yaml)]"
    and "\<not> arg_sudo a" and "writable w (arg_output_file a)"
    and "captured (proc w (length (executed w)) (sh_c (Str ''false'')) [] None) = None"
    and "captured (proc w (Suc (length (executed w))) (sh_c (Str ''echo fallback-ok'')) [] None)
           = Some (''fallback-ok'' @ [CHR 0x0A])"
    and "generate_html w
           [SubReportResult ''net'' (''fallback-ok'' @ [CHR 0x0A]) (Str ''net.txt'') []] = Inr html"
    and "read_file (pkg w) [''style.css''] = Inr style"
    and "read_files_from_dir (pkg w) [''static''] [] = Inr statics"
  shows "\<exists>w'. main w a = (Inr (), w')
    \<and> written w' = written w @
         [(arg_output_file a,
           (''net.txt'', ''fallback-ok'' @ [CHR 0x0A])
           # (''system_report_summary.html'', html)
           # (''style.css'', style) # statics)]"
proof -
  from generate_system_report_ok [OF read_net_output [OF assms(1)]
      run_net_config [OF assms(4,5)] assms(6,7,8)]
  obtain w' where "generate_system_report w (arg_config a) =
      (Inr ([(''net.txt'', ''fallback-ok'' @ [CHR 0x0A])]
            @ [(''system_report_summary.html'', html), (''style.css'', style)] @ statics), w')"
    "written w' = written w" "writable w' = writable w" by blast
  then show ?thesis using assms(2,3) by (simp add: main_def)
qed

section \<open>The examples on the demonstration host\<close>

text \<open>
  The configuration \<^verbatim>\<open>{"net": {"run": "false", "on-fail": {"run": "echo fallback-ok",
  "output": "net.txt"}}}\<close> is refused: the run exits with status 1 and writes no archive.
\<close>

theorem net_example_counterexample:
  "fst (main demo_world
         \<lparr>arg_output_file = ''report.zip'', arg_config = ''net.yml'', arg_sudo = False\<rparr>)
     = Inl (SystemExit 1)
   \<and> written (snd (main demo_world
        \<lparr>arg_output_file = ''report.zip'', arg_config = ''net.yml'', arg_sudo = False\<rparr>)) = []"
  by (simp add: main_def generate_system_report_def read_commands_def read_config_def
        demo_world_def demo_yaml_files_def net_yaml_def required_fields_present_def print_def)

lemma demo_static:
  "read_files_from_dir (pkg demo_world) [''static''] [] =
     Inr [(''static/logo.svg'', ''<svg/>''), (''static/report.js'', ''init()'')]"
  by (simp add: read_files_from_dir.simps demo_world_def demo_pkg_def os_walk_def read_file_def
        dirnames_def filenames_def)

lemma demo_net_run:
  "yaml_files demo_world ''net_output.yml'' = Some [(''net'', net_output_yaml)]"
  "captured (proc demo_world (length (executed demo_world)) (sh_c (Str ''false'')) [] None) = None"
  "captured (proc demo_world (Suc (length (executed demo_world)))
     (sh_c (Str ''echo fallback-ok'')) [] None) = Some (''fallback-ok'' @ [CHR 0x0A])"
  "generate_html demo_world
     [SubReportResult ''net'' (''fallback-ok'' @ [CHR 0x0A]) (Str ''net.txt'') []]
     = Inr ''<html/>net''"
  "read_file (pkg demo_world) [''style.css''] = Inr ''body {}''"
  by (simp_all add: demo_world_def demo_yaml_files_def demo_proc_def sh_c_def
        generate_html_def demo_pkg_def read_file_def)

theorem net_example_with_output_witness:
  "yaml_files demo_world ''net_output.yml'' = Some [(''net'', net_output_yaml)]
   \<and> (\<exists>w'. main demo_world
          \<lparr>arg_output_file = ''report.zip'', arg_config = ''net_output.yml'', arg_sudo = False\<rparr>
          = (Inr (), w')
        \<and> written w' =
            [(''report.zip'',
              [(''net.txt'', ''fallback-ok'' @ [CHR 0x0A]),
               (''system_report_summary.html'', ''<html/>net''),
               (''style.css'', ''body {}''),
               (''static/logo.svg'', ''<svg/>''),
               (''static/report.js'', ''init()'')])])"
proof -
  let ?a = "\<lparr>arg_output_file = ''report.zip'', arg_config = ''net_output.yml'', arg_sudo = False\<rparr>"
  have 1: "yaml_files demo_world (arg_config ?a) = Some [(''net'', net_output_yaml)]"
    using demo_net_run(1) by simp
  have 2: "\<not> arg_sudo ?a" by simp
  have 3: "writable demo_world (arg_output_file ?a)" by (simp add: demo_world_def)
  have 4: "written demo_world = []" by (simp add: demo_world_def)
  from net_example_with_output [OF 1 2 3 demo_net_run(2,3,4,5) demo_static]
  show ?thesis using demo_net_run(1) by (simp add: 4)
qed

section \<open>Loading the configuration and the privilege check\<close>

text \<open>
  Loading prints to the console and changes nothing else; when it ends the run, it does so
  with the exit status 1.
\<close>

lemma console_same: "\<exists>k. (v::world) = v\<lparr>console := k\<rparr>"
  by (rule exI [of _ "console v"]) simp

lemma SummaryConfig_init_cases:
  "(\<exists>s. SummaryConfig_init w c = (Inr s, w))
   \<or> SummaryConfig_init w c =
       (Inl (SystemExit 1), print ''Error: summary config is incomplete'' w)"
proof (cases c)
  case (YamlSummary t r)
  then show ?thesis by (cases t; cases r) simp_all
qed

lemma SummaryConfig_init_frame:
  assumes "SummaryConfig_init w c = (r, w')"
  shows "(\<exists>k. w' = w\<lparr>console := k\<rparr>) \<and> (\<forall>e. r = Inl e \<longrightarrow> e = SystemExit 1)"
  using SummaryConfig_init_cases [of w c]
proof
  assume "\<exists>s. SummaryConfig_init w c = (Inr s, w)"
  with assms have "w' = w" "\<forall>e. r \<noteq> Inl e" by auto
  then show ?thesis using console_same [of w] by simp
next
  assume "SummaryConfig_init w c =
    (Inl (SystemExit 1), print ''Error: summary config is incomplete'' w)"
  with assms have "r = Inl (SystemExit 1)"
    "w' = w\<lparr>console := console w @ [''Error: summary config is incomplete'' @ [CHR 0x0A]]\<rparr>"
    by (simp_all add: print_def)
  then show ?thesis by blast
qed

lemma summary_configs_init_frame:
  "summary_configs_init w cs = (r, w') \<Longrightarrow>
   (\<exists>k. w' = w\<lparr>console := k\<rparr>) \<and> (\<forall>e. r = Inl e \<longrightarrow> e = SystemExit 1)"
proof (induction cs arbitrary: w r w')
  case Nil
  then have "w' = w\<lparr>console := console w\<rparr>" "r = Inr []" by auto
  then show ?case by blast
next
  case (Cons c cs)
  obtain r1 w1 where 1: "SummaryConfig_init w c = (r1, w1)" by (cases "SummaryConfig_init w c")
  from SummaryConfig_init_frame [OF 1] obtain k1 where
    w1: "w1 = w\<lparr>console := k1\<rparr>" and e1: "\<forall>e. r1 = Inl e \<longrightarrow> e = SystemExit 1" by blast
  show ?case
  proof (cases r1)
    case (Inl e)
    with Cons.prems 1 have "r = Inl e" "w' = w1" by auto
    with w1 e1 Inl show ?thesis by blast
  next
    case (Inr s)
    obtain r2 w2 where 2: "summary_configs_init w1 cs = (r2, w2)"
      by (cases "summary_configs_init w1 cs")
    from Cons.IH [OF 2] obtain k2 where
      w2: "w2 = w1\<lparr>console := k2\<rparr>" and e2: "\<forall>e. r2 = Inl e \<longrightarrow> e = SystemExit 1" by blast
    have w2': "w2 = w\<lparr>console := k2\<rparr>" using w1 w2 by simp
    from Cons.prems 1 2 Inr have "w' = w2" "\<forall>e. r = Inl e \<longrightarrow> r2 = Inl e"
      by (auto split: sum.splits)
    with w2' e2 show ?thesis by blast
  qed
qed

lemma yaml_chain_unfold:
  "yaml_chain y = y # (case y_on_fail y of None \<Rightarrow> [] | Some f \<Rightarrow> yaml_chain f)"
  by (cases y) simp

lemma CommandConfig_init_invalid:
  "\<not> required_fields_present y \<or> \<not> superuser_correct y \<Longrightarrow>
   CommandConfig_init w (nm, y) =
     (Inl (SystemExit 1), print (''Error: '' @ nm @ '' config is invalid'') w)"
  by (cases y) auto

lemma CommandConfig_init_valid:
  assumes "required_fields_present y" and "superuser_correct y" and "y_run y = Some s"
  shows "CommandConfig_init w (nm, y) =
    (case check_superuser w y s of
       (Some e, w1) \<Rightarrow> (Inl e, w1)
     | (None, w1) \<Rightarrow>
         (case summary_configs_init w1 (case y_summary y of None \<Rightarrow> [] | Some cs \<Rightarrow> cs) of
            (Inl e, w2) \<Rightarrow> (Inl e, w2)
          | (Inr scs, w2) \<Rightarrow>
              (case y_on_fail y of
                 None \<Rightarrow>
                   (Inr (CommandConfig nm s scs (case y_output y of None \<Rightarrow> Null | Some f \<Rightarrow> f)
                      None), w2)
               | Some f \<Rightarrow>
                   (case CommandConfig_init w2 (nm, f) of
                      (Inl e, w3) \<Rightarrow> (Inl e, w3)
                    | (Inr c, w3) \<Rightarrow>
                        (Inr (CommandConfig nm s scs
                           (case y_output y of None \<Rightarrow> Null | Some f \<Rightarrow> f) (Some c)), w3)))))"
  using assms
  by (cases y) (auto simp: Let_def split: prod.splits option.splits sum.splits)

lemma check_superuser_frame:
  assumes "check_superuser w y s = (r, w1)"
  shows "(\<exists>k. w1 = w\<lparr>console := k\<rparr>) \<and> (\<forall>e. r = Some e \<longrightarrow> e = SystemExit 1)
    \<and> (y_superuser y = Some (Str ''required'') \<and> \<not> is_root w \<longrightarrow> r = Some (SystemExit 1))"
  using assms
  by (auto simp: check_superuser_def print_def console_same split: option.splits if_splits)

lemma is_root_console [simp]: "is_root (w\<lparr>console := k\<rparr>) = is_root w"
  by (simp add: is_root_def)

lemma CommandConfig_init_frame:
  "CommandConfig_init w (nm, y) = (r, w') \<Longrightarrow>
   (\<exists>k. w' = w\<lparr>console := k\<rparr>) \<and> (\<forall>e. r = Inl e \<longrightarrow> e = SystemExit 1)
   \<and> (\<not> is_root w \<and> (\<exists>spec\<in>set (yaml_chain y). y_superuser spec = Some (Str ''required''))
        \<longrightarrow> r = Inl (SystemExit 1))"
proof (induction y arbitrary: w r w')
  case (YamlCommand run out su summ onf)
  let ?y = "YamlCommand run out su summ onf"
  note init = YamlCommand.prems
  show ?case
  proof (cases "required_fields_present ?y \<and> superuser_correct ?y")
    case False
    then have "CommandConfig_init w (nm, ?y) =
      (Inl (SystemExit 1), print (''Error: '' @ nm @ '' config is invalid'') w)"
      by (intro CommandConfig_init_invalid) blast
    with init have "r = Inl (SystemExit 1)"
      "w' = w\<lparr>console := console w @ [(''Error: '' @ nm @ '' config is invalid'') @ [CHR 0x0A]]\<rparr>"
      by (simp_all add: print_def)
    then show ?thesis by blast
  next
    case True
    then obtain s where s: "y_run ?y = Some s"
      by (auto simp: required_fields_present_def)
    note unfold = CommandConfig_init_valid [OF conjunct1 [OF True] conjunct2 [OF True] s, of w nm]
    obtain r0 w1 where cs: "check_superuser w ?y s = (r0, w1)"
      by (cases "check_superuser w ?y s")
    from check_superuser_frame [OF cs] obtain k1 where
      w1: "w1 = w\<lparr>console := k1\<rparr>" and e0: "\<forall>e. r0 = Some e \<longrightarrow> e = SystemExit 1"
      and req: "y_superuser ?y = Some (Str ''required'') \<and> \<not> is_root w \<longrightarrow> r0 = Some (SystemExit 1)"
      by blast
    show ?thesis
    proof (cases r0)
      case (Some e)
      with init unfold cs have "r = Inl e" "w' = w1" by simp_all
      with Some e0 w1 show ?thesis by blast
    next
      case None
      obtain r2 w2 where sc: "summary_configs_init w1 (case y_summary ?y of None \<Rightarrow> [] | Some cs \<Rightarrow> cs)
        = (r2, w2)"
        by (cases "summary_configs_init w1 (case y_summary ?y of None \<Rightarrow> [] | Some cs \<Rightarrow> cs)")
      from summary_configs_init_frame [OF sc] obtain k2 where
        w2: "w2 = w1\<lparr>console := k2\<rparr>" and e2: "\<forall>e. r2 = Inl e \<longrightarrow> e = SystemExit 1" by blast
      have w2': "w2 = w\<lparr>console := k2\<rparr>" using w1 w2 by simp
      show ?thesis
      proof (cases r2)
        case (Inl e)
        with init unfold cs None sc have "r = Inl e" "w' = w2" by simp_all
        with Inl e2 w2' show ?thesis by blast
      next
        case (Inr scs)
        show ?thesis
        proof (cases onf)
          case onf: None
          with init unfold cs None sc Inr have
            "r = Inr (CommandConfig nm s scs (case y_output ?y of None \<Rightarrow> Null | Some f \<Rightarrow> f) None)"
            "w' = w2" by simp_all
          moreover have "\<not> (\<not> is_root w \<and>
            (\<exists>spec\<in>set (yaml_chain ?y). y_superuser spec = Some (Str ''required'')))"
            using req None onf by auto
          ultimately show ?thesis using w2' by blast
        next
          case (Some f)
          obtain r3 w3 where rec: "CommandConfig_init w2 (nm, f) = (r3, w3)"
            by (cases "CommandConfig_init w2 (nm, f)")
          have f_in: "f \<in> set_option onf" using Some by simp
          from YamlCommand.IH [OF f_in rec] obtain k3 where
            w3: "w3 = w2\<lparr>console := k3\<rparr>" and e3: "\<forall>e. r3 = Inl e \<longrightarrow> e = SystemExit 1"
            and req3: "\<not> is_root w2 \<and>
              (\<exists>spec\<in>set (yaml_chain f). y_superuser spec = Some (Str ''required''))
              \<longrightarrow> r3 = Inl (SystemExit 1)"
            by blast
          have w3': "w3 = w\<lparr>console := k3\<rparr>" using w2' w3 by simp
          have "(r, w') = (case r3 of Inl e \<Rightarrow> (Inl e, w3)
              | Inr c \<Rightarrow> (Inr (CommandConfig nm s scs
                  (case y_output ?y of None \<Rightarrow> Null | Some f \<Rightarrow> f) (Some c)), w3))"
            using init unfold cs None sc Inr Some rec by simp
          then have res: "w' = w3" "\<forall>e. r = Inl e \<longrightarrow> r3 = Inl e"
            "\<forall>e. r3 = Inl e \<longrightarrow> r = Inl e"
            by (cases r3; simp)+
          have "r = Inl (SystemExit 1)"
            if nr: "\<not> is_root w"
              and ex: "\<exists>spec\<in>set (yaml_chain ?y). y_superuser spec = Some (Str ''required'')"
          proof -
            have "y_superuser ?y \<noteq> Some (Str ''required'')" using req None nr by auto
            with ex Some have "\<exists>spec\<in>set (yaml_chain f). y_superuser spec = Some (Str ''required'')"
              by auto
            moreover have "\<not> is_root w2" using nr w2' by simp
            ultimately have "r3 = Inl (SystemExit 1)" using req3 by blast
            with res(3) show ?thesis by blast
          qed
          with res e3 w3' show ?thesis by blast
        qed
      qed
    qed
  qed
qed

lemma command_configs_init_frame:
  "command_configs_init w items = (r, w') \<Longrightarrow>
   (\<exists>k. w' = w\<lparr>console := k\<rparr>) \<and> (\<forall>e. r = Inl e \<longrightarrow> e = SystemExit 1)
   \<and> (\<not> is_root w \<and> (\<exists>item\<in>set items. \<exists>spec\<in>set (yaml_chain (snd item)).
          y_superuser spec = Some (Str ''required''))
        \<longrightarrow> r = Inl (SystemExit 1))"
proof (induction items arbitrary: w r w')
  case Nil
  then have "r = Inr []" "w' = w" by simp_all
  then show ?case using console_same [of w] by simp
next
  case (Cons item items)
  obtain nm y where item: "item = (nm, y)" by (cases item)
  obtain r1 w1 where 1: "CommandConfig_init w (nm, y) = (r1, w1)"
    by (cases "CommandConfig_init w (nm, y)")
  from CommandConfig_init_frame [OF 1] obtain k1 where
    w1: "w1 = w\<lparr>console := k1\<rparr>" and e1: "\<forall>e. r1 = Inl e \<longrightarrow> e = SystemExit 1"
    and req1: "\<not> is_root w \<and> (\<exists>spec\<in>set (yaml_chain y). y_superuser spec = Some (Str ''required''))
        \<longrightarrow> r1 = Inl (SystemExit 1)" by blast
  show ?case
  proof (cases r1)
    case (Inl e)
    with Cons.prems 1 item have "r = Inl e" "w' = w1" by simp_all
    with Inl e1 w1 show ?thesis by blast
  next
    case (Inr c)
    obtain r2 w2 where 2: "command_configs_init w1 items = (r2, w2)"
      by (cases "command_configs_init w1 items")
    from Cons.IH [OF 2] obtain k2 where
      w2: "w2 = w1\<lparr>console := k2\<rparr>" and e2: "\<forall>e. r2 = Inl e \<longrightarrow> e = SystemExit 1"
      and req2: "\<not> is_root w1 \<and> (\<exists>item\<in>set items. \<exists>spec\<in>set (yaml_chain (snd item)).
          y_superuser spec = Some (Str ''required'')) \<longrightarrow> r2 = Inl (SystemExit 1)" by blast
    have w2': "w2 = w\<lparr>console := k2\<rparr>" using w1 w2 by simp
    have "(r, w') = (case r2 of Inl e \<Rightarrow> (Inl e, w2) | Inr cs \<Rightarrow> (Inr (c # cs), w2))"
      using Cons.prems 1 2 item Inr by simp
    then have res: "w' = w2" "\<forall>e. r = Inl e \<longrightarrow> r2 = Inl e" "\<forall>e. r2 = Inl e \<longrightarrow> r = Inl e"
      by (cases r2; simp)+
    have "r = Inl (SystemExit 1)"
      if nr: "\<not> is_root w"
        and ex: "\<exists>item\<in>set (item # items). \<exists>spec\<in>set (yaml_chain (snd item)).
          y_superuser spec = Some (Str ''required'')"
    proof -
      have "\<not> (\<exists>spec\<in>set (yaml_chain y). y_superuser spec = Some (Str ''required''))"
        using req1 nr Inr by auto
      with ex item have "\<exists>item\<in>set items. \<exists>spec\<in>set (yaml_chain (snd item)).
          y_superuser spec = Some (Str ''required'')" by auto
      moreover have "\<not> is_root w1" using nr w1 by simp
      ultimately have "r2 = Inl (SystemExit 1)" using req2 by blast
      with res(3) show ?thesis by blast
    qed
    with res e2 w2' show ?thesis by blast
  qed
qed

text \<open>
  C3. When a command object of the configuration, or one of its \<^verbatim>\<open>on-fail\<close> objects, has
  \<^verbatim>\<open>superuser: required\<close> and the process is not root, \<^verbatim>\<open>main\<close> ends with the exit status 1
  while the configuration is loaded: no subprocess of any command has been started and no
  archive has been written.
\<close>

theorem required_privilege_aborts:
  assumes "yaml_files w (arg_config a) = Some items"
    and "(nm, y) \<in> set items" and "spec \<in> set (yaml_chain y)"
    and "y_superuser spec = Some (Str ''required'')"
    and "\<not> is_root w" and "\<not> arg_sudo a"
  shows "\<exists>w'. main w a = (Inl (SystemExit 1), w')
    \<and> written w' = written w \<and> executed w' = executed w"
proof -
  obtain r w1 where init: "command_configs_init w items = (r, w1)"
    by (cases "command_configs_init w items")
  have "\<exists>item\<in>set items. \<exists>spec\<in>set (yaml_chain (snd item)).
          y_superuser spec = Some (Str ''required'')"
    using assms(2,3,4) by force
  with command_configs_init_frame [OF init] assms(5) obtain k where
    "w1 = w\<lparr>console := k\<rparr>" "r = Inl (SystemExit 1)" by blast
  with init assms(1,6) have "main w a = (Inl (SystemExit 1), w\<lparr>console := k\<rparr>)"
    by (simp add: main_def generate_system_report_def read_commands_def read_config_def)
  then show ?thesis by simp
qed

theorem required_privilege_aborts_witness:
  "yaml_files demo_world ''dmesg.yml'' = Some [(''net'', net_output_yaml), (''dmesg'', dmesg_yaml)]
   \<and> y_superuser dmesg_yaml = Some (Str ''required'') \<and> \<not> is_root demo_world
   \<and> (\<exists>w'. main demo_world
          \<lparr>arg_output_file = ''report.zip'', arg_config = ''dmesg.yml'', arg_sudo = False\<rparr>
          = (Inl (SystemExit 1), w')
        \<and> written w' = [] \<and> executed w' = [])"
proof -
  let ?a = "\<lparr>arg_output_file = ''report.zip'', arg_config = ''dmesg.yml'', arg_sudo = False\<rparr>"
  have 1: "yaml_files demo_world (arg_config ?a) =
    Some [(''net'', net_output_yaml), (''dmesg'', dmesg_yaml)]"
    by (simp add: demo_world_def demo_yaml_files_def)
  have 2: "(''dmesg'', dmesg_yaml) \<in> set [(''net'', net_output_yaml), (''dmesg'', dmesg_yaml)]"
    by simp
  have 3: "dmesg_yaml \<in> set (yaml_chain dmesg_yaml)" by (simp add: dmesg_yaml_def)
  have 4: "y_superuser dmesg_yaml = Some (Str ''required'')" by (simp add: dmesg_yaml_def)
  have 5: "\<not> is_root demo_world" by (simp add: is_root_def demo_world_def)
  have 6: "\<not> arg_sudo ?a" by simp
  have 7: "written demo_world = []" "executed demo_world = []" by (simp_all add: demo_world_def)
  from required_privilege_aborts [OF 1 2 3 4 5 6] 1 4 5 show ?thesis
    by (simp add: 7)
qed

section \<open>Runs that differ in what they print only\<close>

lemma quiet_fields:
  assumes "quiet w = quiet v"
  shows "uid w = uid v" "proc w = proc v" "executed w = executed v" "polls w = polls v"
    "pkg_dir w = pkg_dir v" "pkg w = pkg v" "render w = render v" "writable w = writable v"
    "written w = written v"
proof -
  have "uid (quiet w) = uid (quiet v)" "proc (quiet w) = proc (quiet v)"
    "executed (quiet w) = executed (quiet v)" "polls (quiet w) = polls (quiet v)"
    "pkg_dir (quiet w) = pkg_dir (quiet v)" "pkg (quiet w) = pkg (quiet v)"
    "render (quiet w) = render (quiet v)" "writable (quiet w) = writable (quiet v)"
    "written (quiet w) = written (quiet v)"
    by (simp_all only: assms)
  then show "uid w = uid v" "proc w = proc v" "executed w = executed v" "polls w = polls v"
    "pkg_dir w = pkg_dir v" "pkg w = pkg v" "render w = render v" "writable w = writable v"
    "written w = written v"
    by (simp_all add: quiet_def)
qed

lemma quiet_update [simp]:
  "quiet (w\<lparr>console := k\<rparr>) = quiet w"
  "quiet (w\<lparr>yaml_files := f\<rparr>) = quiet w"
  by (simp_all add: quiet_def)

lemma quiet_executed [simp]: "quiet (w\<lparr>executed := e\<rparr>) = (quiet w)\<lparr>executed := e\<rparr>"
  by (simp add: quiet_def)

lemma quiet_written [simp]: "quiet (w\<lparr>written := e\<rparr>) = (quiet w)\<lparr>written := e\<rparr>"
  by (simp add: quiet_def)

lemma check_output_quiet:
  assumes "quiet v = quiet w"
  shows "fst (check_output v cmd env inp) = fst (check_output w cmd env inp)"
    and "quiet (snd (check_output v cmd env inp)) = quiet (snd (check_output w cmd env inp))"
  using quiet_fields [OF assms] assms by (simp_all add: check_output_def)

lemma run_summaries_quiet:
  assumes "quiet v = quiet w"
  shows "fst (run_summaries v out scs) = fst (run_summaries w out scs)
    \<and> quiet (snd (run_summaries v out scs)) = quiet (snd (run_summaries w out scs))"
  using assms
proof (induction scs arbitrary: v w)
  case Nil
  then show ?case by simp
next
  case (Cons s scs)
  note q = quiet_fields [OF Cons.prems]
  let ?cmd = "sh_c (summary_script s)"
  have env: "summary_env v = summary_env w" using q by (simp add: summary_env_def)
  have 1: "fst (check_output v ?cmd (summary_env v) (Some out)) =
           fst (check_output w ?cmd (summary_env w) (Some out))"
    using check_output_quiet(1) [OF Cons.prems] env by simp
  have 2: "quiet (snd (check_output v ?cmd (summary_env v) (Some out))) =
           quiet (snd (check_output w ?cmd (summary_env w) (Some out)))"
    using check_output_quiet(2) [OF Cons.prems] env by simp
  from Cons.IH [OF 2] 1 show ?case by (simp add: split_beta)
qed

lemma run_command_quiet:
  assumes "quiet v = quiet w"
  shows "fst (run_command v c) = fst (run_command w c)
    \<and> quiet (snd (run_command v c)) = quiet (snd (run_command w c))"
  using assms
proof (induction c arbitrary: v w)
  case (CommandConfig nm s scs outf onf)
  note q = quiet_fields [OF CommandConfig.prems]
  let ?cmd = "sh_c s"
  have 1: "fst (get_cmd_output v ?cmd) = fst (get_cmd_output w ?cmd)"
    using check_output_quiet(1) [OF CommandConfig.prems] by (simp add: get_cmd_output_def)
  have 2: "quiet (snd (get_cmd_output v ?cmd)) = quiet (snd (get_cmd_output w ?cmd))"
    using check_output_quiet(2) [OF CommandConfig.prems] by (simp add: get_cmd_output_def)
  show ?case
  proof (cases "fst (get_cmd_output w ?cmd)")
    case None
    show ?thesis
    proof (cases onf)
      case onf: None
      with None 1 2 show ?thesis by (simp add: split_beta)
    next
      case (Some g)
      have "g \<in> set_option onf" using Some by simp
      from CommandConfig.IH [OF this 2] None 1 Some show ?thesis by (simp add: split_beta)
    qed
  next
    case (Some out)
    from run_summaries_quiet [OF 2, of out scs] Some 1 show ?thesis by (simp add: split_beta)
  qed
qed

lemma quiet_print [simp]:
  "quiet (print s w) = quiet w"
  "quiet (print_no_end s w) = quiet w"
  "quiet (spinner nm k w) = quiet w"
  by (simp_all add: print_def print_no_end_def spinner_console)

lemma run_commands_quiet:
  assumes "quiet v = quiet w"
  shows "fst (run_commands v cs fl sb) = fst (run_commands w cs fl sb)
    \<and> quiet (snd (run_commands v cs fl sb)) = quiet (snd (run_commands w cs fl sb))"
  using assms
proof (induction cs arbitrary: v w fl sb)
  case Nil
  then show ?case by simp
next
  case (Cons c cs)
  note q = quiet_fields [OF Cons.prems]
  let ?v1 = "print_no_end (''running '' @ name c) v"
  let ?w1 = "print_no_end (''running '' @ name c) w"
  have q1: "quiet ?v1 = quiet ?w1" using Cons.prems by simp
  obtain r w2 where rw: "run_command ?w1 c = (r, w2)" by (cases "run_command ?w1 c")
  obtain r' v2 where rv: "run_command ?v1 c = (r', v2)" by (cases "run_command ?v1 c")
  from run_command_quiet [OF q1, of c] rw rv have r: "r' = r" and q2: "quiet v2 = quiet w2"
    by simp_all
  have k: "polls v (length (executed v)) = polls w (length (executed w))" using q by simp
  show ?case
  proof (cases r)
    case None
    let ?v4 = "print ([CHR 0x0D] @ CLEAR_LINE @ name c @ '' failed'')
         (spinner (name c) (polls v (length (executed v))) v2)"
    let ?w4 = "print ([CHR 0x0D] @ CLEAR_LINE @ name c @ '' failed'')
         (spinner (name c) (polls w (length (executed w))) w2)"
    have q4: "quiet ?v4 = quiet ?w4" using q2 by simp
    have "run_commands v (c # cs) fl sb = run_commands ?v4 cs fl sb"
      using rv r None by (simp only: run_commands_failed)
    moreover have "run_commands w (c # cs) fl sb = run_commands ?w4 cs fl sb"
      using rw None by (simp only: run_commands_failed)
    ultimately show ?thesis using Cons.IH [OF q4, of fl sb] by simp
  next
    case (Some res)
    let ?v4 = "print ([CHR 0x0D] @ CLEAR_LINE @ name c @ '' completed'')
         (spinner (name c) (polls v (length (executed v))) v2)"
    let ?w4 = "print ([CHR 0x0D] @ CLEAR_LINE @ name c @ '' completed'')
         (spinner (name c) (polls w (length (executed w))) w2)"
    let ?fl = "if truthy (output_file c) then fl @ [(fmt (output_file c), raw_output res)] else fl"
    have q4: "quiet ?v4 = quiet ?w4" using q2 by simp
    have "run_commands v (c # cs) fl sb = run_commands ?v4 cs ?fl (sb @ [res])"
      using rv r Some by (simp only: run_commands_completed)
    moreover have "run_commands w (c # cs) fl sb = run_commands ?w4 cs ?fl (sb @ [res])"
      using rw Some by (simp only: run_commands_completed)
    ultimately show ?thesis using Cons.IH [OF q4, of ?fl "sb @ [res]"] by simp
  qed
qed

text \<open>What loading builds depends on the world through \<^verbatim>\<open>is_root\<close> only.\<close>

lemma SummaryConfig_init_result: "fst (SummaryConfig_init v c) = fst (SummaryConfig_init w c)"
proof (cases c)
  case (YamlSummary t r)
  then show ?thesis by (cases t; cases r) simp_all
qed

lemma summary_configs_init_result:
  "fst (summary_configs_init v cs) = fst (summary_configs_init w cs)"
proof (induction cs arbitrary: v w)
  case Nil
  show ?case by simp
next
  case (Cons c cs)
  show ?case
    using SummaryConfig_init_result [of v c w]
      Cons.IH [of "snd (SummaryConfig_init v c)" "snd (SummaryConfig_init w c)"]
    by (simp add: split_beta split: sum.splits)
qed

lemma check_superuser_result:
  "is_root v = is_root w \<Longrightarrow> fst (check_superuser v y s) = fst (check_superuser w y s)"
  by (simp add: check_superuser_def split: option.splits)

lemma check_superuser_is_root [simp]: "is_root (snd (check_superuser w y s)) = is_root w"
  using check_superuser_frame [of w y s "fst (check_superuser w y s)" "snd (check_superuser w y s)"]
  by auto

lemma summary_configs_init_is_root [simp]: "is_root (snd (summary_configs_init w cs)) = is_root w"
  using summary_configs_init_frame
    [of w cs "fst (summary_configs_init w cs)" "snd (summary_configs_init w cs)"]
  by auto

lemma CommandConfig_init_is_root [simp]: "is_root (snd (CommandConfig_init w x)) = is_root w"
  using CommandConfig_init_frame
    [of w "fst x" "snd x" "fst (CommandConfig_init w x)" "snd (CommandConfig_init w x)"]
  by auto

lemma CommandConfig_init_result:
  "is_root v = is_root w \<Longrightarrow>
   fst (CommandConfig_init v (nm, y)) = fst (CommandConfig_init w (nm, y))"
proof (induction y arbitrary: v w)
  case (YamlCommand run out su summ onf)
  let ?y = "YamlCommand run out su summ onf"
  show ?case
  proof (cases "required_fields_present ?y \<and> superuser_correct ?y")
    case False
    then have "\<not> required_fields_present ?y \<or> \<not> superuser_correct ?y" by blast
    then show ?thesis by (simp only: CommandConfig_init_invalid fst_conv)
  next
    case True
    then obtain s where s: "y_run ?y = Some s" by (auto simp: required_fields_present_def)
    note uv = CommandConfig_init_valid [OF conjunct1 [OF True] conjunct2 [OF True] s, of v nm]
    note uw = CommandConfig_init_valid [OF conjunct1 [OF True] conjunct2 [OF True] s, of w nm]
    let ?sl = "case y_summary ?y of None \<Rightarrow> [] | Some cs \<Rightarrow> cs"
    have 1: "fst (check_superuser v ?y s) = fst (check_superuser w ?y s)"
      by (rule check_superuser_result [OF YamlCommand.prems])
    have 2: "fst (summary_configs_init (snd (check_superuser v ?y s)) ?sl) =
             fst (summary_configs_init (snd (check_superuser w ?y s)) ?sl)"
      by (rule summary_configs_init_result)
    have 3: "fst (CommandConfig_init
                (snd (summary_configs_init (snd (check_superuser v ?y s)) ?sl)) (nm, g)) =
             fst (CommandConfig_init
                (snd (summary_configs_init (snd (check_superuser w ?y s)) ?sl)) (nm, g))"
      if "onf = Some g" for g
      using that YamlCommand.prems by (intro YamlCommand.IH) simp_all
    show ?thesis
      unfolding uv uw using 1 2 3
      by (auto simp: split_beta split: option.splits sum.splits)
  qed
qed

lemma command_configs_init_is_root [simp]:
  "is_root (snd (command_configs_init w items)) = is_root w"
  using command_configs_init_frame
    [of w items "fst (command_configs_init w items)" "snd (command_configs_init w items)"]
  by auto

lemma command_configs_init_result:
  "is_root v = is_root w \<Longrightarrow>
   fst (command_configs_init v items) = fst (command_configs_init w items)"
proof (induction items arbitrary: v w)
  case Nil
  show ?case by simp
next
  case (Cons item items)
  obtain nm y where item: "item = (nm, y)" by (cases item)
  have 1: "fst (CommandConfig_init v item) = fst (CommandConfig_init w item)"
    unfolding item by (rule CommandConfig_init_result [OF Cons.prems])
  have 2: "fst (command_configs_init (snd (CommandConfig_init v item)) items) =
           fst (command_configs_init (snd (CommandConfig_init w item)) items)"
    using Cons.prems by (intro Cons.IH) simp
  show ?case using 1 2 by (auto simp: split_beta split: sum.splits)
qed

lemma command_configs_init_quiet [simp]:
  "quiet (snd (command_configs_init w items)) = quiet w"
  using command_configs_init_frame
    [of w items "fst (command_configs_init w items)" "snd (command_configs_init w items)"]
  by auto

lemma assemble_quiet:
  fixes cs :: "CommandConfig list"
  defines "A \<equiv> \<lambda>u. (case run_commands u cs [] [] of
               ((files, sub_reports), w2) \<Rightarrow>
                 (case generate_html w2 sub_reports of
                    Inl e \<Rightarrow> (Inl e, w2)
                  | Inr html \<Rightarrow>
                      (case read_file (pkg w2) [''style.css''] of
                         Inl e \<Rightarrow> (Inl e, w2)
                       | Inr style \<Rightarrow>
                           (read_files_from_dir (pkg w2) [''static'']
                              (files @ [(''system_report_summary.html'', html)]
                                     @ [(''style.css'', style)]),
                            w2))))"
  assumes "quiet v = quiet w"
  shows "fst (A v) = fst (A w) \<and> quiet (snd (A v)) = quiet (snd (A w))"
proof -
  obtain fl sb v2 where rv: "run_commands v cs [] [] = ((fl, sb), v2)"
    by (cases "run_commands v cs [] []") auto
  obtain fl' sb' w2 where rw: "run_commands w cs [] [] = ((fl', sb'), w2)"
    by (cases "run_commands w cs [] []") auto
  from run_commands_quiet [OF assms(2), of cs "[]" "[]"] rv rw
  have eq: "fl' = fl" "sb' = sb" and q2: "quiet v2 = quiet w2" by simp_all
  note q = quiet_fields [OF q2]
  have html: "generate_html v2 sb = generate_html w2 sb"
    by (rule generate_html_frame [OF q(6,7)])
  show ?thesis
    unfolding A_def rv rw eq using html q(6) q2 by (auto split: sum.splits)
qed

section \<open>The file list\<close>

text \<open>
  The loop over the commands returns the registered entries and the results of the
  commands run in turn, whatever it prints in between.
\<close>

lemma results_length [simp]: "length (results w cs) = length cs"
  by (induction cs arbitrary: w) simp_all

lemma start_0 [simp]: "start w cs 0 = w"
  by (simp add: start_def)

lemma start_Suc_Cons [simp]: "start w (c # cs) (Suc i) = start (snd (run_command w c)) cs i"
  by (simp add: start_def)

lemma results_nth:
  "i < length cs \<Longrightarrow> results w cs ! i = fst (run_command (start w cs i) (cs ! i))"
proof (induction cs arbitrary: w i)
  case Nil
  then show ?case by simp
next
  case (Cons c cs)
  then show ?case by (cases i) simp_all
qed

lemma start_step:
  "i < length cs \<Longrightarrow> start w cs (Suc i) = snd (run_command (start w cs i) (cs ! i))"
proof (induction cs arbitrary: w i)
  case Nil
  then show ?case by simp
next
  case (Cons c cs)
  then show ?case by (cases i) simp_all
qed



lemma start_world: "\<exists>e. start w cs i = w\<lparr>executed := e\<rparr>"
proof (induction cs arbitrary: w i)
  case Nil
  have "start w [] i = w\<lparr>executed := executed w\<rparr>" by (simp add: start_def)
  then show ?case by blast
next
  case (Cons c cs)
  show ?case
  proof (cases i)
    case 0
    have "start w (c # cs) 0 = w\<lparr>executed := executed w\<rparr>" by simp
    then show ?thesis unfolding 0 by blast
  next
    case (Suc j)
    obtain e where e: "snd (run_command w c) = w\<lparr>executed := e\<rparr>"
      using run_command_world by blast
    from Cons.IH [of "w\<lparr>executed := e\<rparr>" j] obtain e' where
      "start (w\<lparr>executed := e\<rparr>) cs j = w\<lparr>executed := e, executed := e'\<rparr>" by blast
    then have "start w (c # cs) i = w\<lparr>executed := e'\<rparr>" by (simp add: Suc e)
    then show ?thesis by blast
  qed
qed









end
